theory Spec2Isabelle
  imports Complex_Main "HOL-Library.Char_ord" "HOL-Library.List_Lexorder" "HOL-Library.AList"
    "HOL-Library.Sublist"
begin

section \<open>Python values and exceptions\<close>

text \<open>
  The exception classes that the modelled functions raise or let through. An exception
  raised by the interpreter or by a library carries no text here: only its class decides
  which \<open>except\<close> clause catches it. \<open>JSONDecodeError\<close> is a subclass of
  \<open>ValueError\<close> in Python, so every clause that catches \<open>ValueError\<close> catches it too.
\<close>

datatype exn =
    ValueError string
  | KeyError string
  | JSONDecodeError
  | TypeError
  | AttributeError
  | IndexError
  | ZeroDivisionError
  | FileNotFoundError string
  | CalledProcessError string
  | APIError string
  | RuntimeError string

text \<open>
  \<open>str(e)\<close>, as the f-strings of the handlers use it. Where the model keeps no text, the
  name of the class stands for it.
\<close>

fun exn_str :: "exn \<Rightarrow> string" where
  "exn_str (ValueError m) = m"
| "exn_str (KeyError k) = [CHR 0x27] @ k @ [CHR 0x27]"
| "exn_str JSONDecodeError = ''JSONDecodeError''"
| "exn_str TypeError = ''TypeError''"
| "exn_str AttributeError = ''AttributeError''"
| "exn_str IndexError = ''IndexError''"
| "exn_str ZeroDivisionError = ''division by zero''"
| "exn_str (FileNotFoundError m) = m"
| "exn_str (CalledProcessError m) = m"
| "exn_str (APIError m) = m"
| "exn_str (RuntimeError m) = m"

text \<open>
  A decoded JSON document, as \<open>json.loads\<close> returns it: \<open>None\<close>, \<open>bool\<close>, \<open>int\<close>,
  \<open>float\<close>, \<open>str\<close>, \<open>list\<close> and \<open>dict\<close> (keys in insertion order). A \<open>float\<close> is given by
  its value, a rational number.
\<close>

datatype json =
    JNull
  | JBool bool
  | JInt int
  | JFloat rat
  | JStr string
  | JArr "json list"
  | JObj "(string \<times> json) list"

text \<open>
  Floating-point arithmetic. A Python \<open>float\<close> is a double; the finite doubles are
  rational numbers, and every arithmetic operation yields its exact result rounded to a
  double. The rounding is a parameter \<open>rnd\<close> of everything that computes with floats; an
  exact result of zero is a double and is not rounded. Infinities and NaN are outside the
  model.
\<close>

type_synonym rounding = "rat \<Rightarrow> rat"

definition rounded :: "rounding \<Rightarrow> rat \<Rightarrow> rat" where
  "rounded rnd x = (if x = 0 then 0 else rnd x)"

definition fadd :: "rounding \<Rightarrow> rat \<Rightarrow> rat \<Rightarrow> rat" where
  "fadd rnd a b = rounded rnd (a + b)"

definition fsub :: "rounding \<Rightarrow> rat \<Rightarrow> rat \<Rightarrow> rat" where
  "fsub rnd a b = rounded rnd (a - b)"

definition fmul :: "rounding \<Rightarrow> rat \<Rightarrow> rat \<Rightarrow> rat" where
  "fmul rnd a b = rounded rnd (a * b)"

text \<open>\<open>float(i)\<close>, also applied to an \<open>int\<close> operand of a mixed operation.\<close>

definition int_float :: "rounding \<Rightarrow> int \<Rightarrow> rat" where
  "int_float rnd i = rounded rnd (of_int i)"

text \<open>\<open>a / b\<close> on floats.\<close>

definition truediv :: "rounding \<Rightarrow> rat \<Rightarrow> rat \<Rightarrow> exn + rat" where
  "truediv rnd a b = (if b = 0 then Inl ZeroDivisionError else Inr (rounded rnd (a / b)))"

text \<open>A list comprehension whose element expression may raise: the first exception ends it.\<close>

fun map_exn :: "('a \<Rightarrow> exn + 'b) \<Rightarrow> 'a list \<Rightarrow> exn + 'b list" where
  "map_exn f [] = Inr []"
| "map_exn f (x # xs) =
     (case f x of
        Inl e \<Rightarrow> Inl e
      | Inr y \<Rightarrow> (case map_exn f xs of Inl e \<Rightarrow> Inl e | Inr ys \<Rightarrow> Inr (y # ys)))"

text \<open>Sequencing: an exception in the first step ends the computation.\<close>

definition try_bind :: "exn + 'a \<Rightarrow> ('a \<Rightarrow> exn + 'b) \<Rightarrow> exn + 'b" where
  "try_bind m f = (case m of Inl e \<Rightarrow> Inl e | Inr x \<Rightarrow> f x)"

text \<open>\<open>xs[i]\<close> on a list: a negative index counts from the end.\<close>

definition list_index :: "'a list \<Rightarrow> int \<Rightarrow> exn + 'a" where
  "list_index xs i =
     (let n = int (length xs); j = (if i < 0 then i + n else i)
      in if 0 \<le> j \<and> j < n then Inr (xs ! nat j) else Inl IndexError)"

section \<open>Paths and frame file names\<close>

text \<open>\<open>os.path.join(a, b)\<close> of \<open>posixpath\<close>, for two components.\<close>

definition path_join :: "string \<Rightarrow> string \<Rightarrow> string" where
  "path_join a b =
     (if b \<noteq> [] \<and> hd b = CHR ''/'' then b
      else if a = [] \<or> last a = CHR ''/'' then a @ b
      else a @ ''/'' @ b)"

definition digit_char :: "nat \<Rightarrow> char" where
  "digit_char d = char_of (48 + d)"

text \<open>The decimal digits of a non-negative integer, \<open>str(n)\<close>.\<close>

fun str_nat :: "nat \<Rightarrow> string" where
  "str_nat n = (if n < 10 then [digit_char n] else str_nat (n div 10) @ [digit_char (n mod 10)])"

declare str_nat.simps [simp del]

text \<open>
  The format specification \<open>04d\<close> on a non-negative integer: the decimal digits, padded
  with zeros on the left to a width of at least four.
\<close>

definition format_04d :: "nat \<Rightarrow> string" where
  "format_04d idx = (let s = str_nat idx in replicate (4 - length s) CHR ''0'' @ s)"

text \<open>\<open>f"frame_{idx:04d}.jpg"\<close>\<close>

definition frame_name :: "nat \<Rightarrow> string" where
  "frame_name idx = ''frame_'' @ format_04d idx @ ''.jpg''"

section \<open>video.py: VideoProcessor.extract_frames\<close>

record video_metadata =
  duration :: rat
  width :: int
  height :: int
  fps :: rat
  codec :: json
  bitrate :: int

text \<open>
  One invocation of the extraction tool by \<open>subprocess.run\<close>. The command line is fixed
  except for the seek position (\<open>-ss\<close>), the input file (\<open>-i\<close>) and the output file.
\<close>

record ffmpeg_call =
  seek :: rat
  source :: string
  target :: string

text \<open>
  The external tool: given the call and the set of existing paths, it either exits with a
  non-zero status (\<open>Some stderr\<close>, which \<open>check=True\<close> turns into \<open>CalledProcessError\<close>) or
  with zero (\<open>None\<close>), and leaves a new set of existing paths.
\<close>

type_synonym tool = "ffmpeg_call \<Rightarrow> string set \<Rightarrow> string option \<times> string set"

text \<open>
  What \<open>extract_frames\<close> reads and writes besides its arguments: \<open>self.temp_dir\<close>, the paths
  that exist, and the tool invocations issued so far, oldest first.
\<close>

record sys_state =
  temp_dir :: "string option"
  files :: "string set"
  calls :: "ffmpeg_call list"

text \<open>
  The timestamps of lines 128 to 131:
  \<open>[skip_start_seconds + (i * usable_duration / (num_frames - 1)) for i in range(num_frames)]\<close>
\<close>

definition timestamps :: "rounding \<Rightarrow> rat \<Rightarrow> rat \<Rightarrow> int \<Rightarrow> exn + rat list" where
  "timestamps rnd skip_start_seconds usable_duration num_frames =
     map_exn (\<lambda>i. case truediv rnd (fmul rnd (int_float rnd i) usable_duration)
                          (int_float rnd (num_frames - 1)) of
                     Inl e \<Rightarrow> Inl e
                   | Inr q \<Rightarrow> Inr (fadd rnd skip_start_seconds q))
       [0 .. num_frames - 1]"

text \<open>
  The loop of lines 136 to 158 over \<open>enumerate(timestamps, start=1)\<close>. A failing call
  leaves the loop with \<open>CalledProcessError\<close>; a call that succeeds adds its path to
  \<open>frame_files\<close> only when the file exists afterwards.
\<close>

fun extract_loop ::
  "tool \<Rightarrow> string \<Rightarrow> string \<Rightarrow> (nat \<times> rat) list \<Rightarrow> string list \<Rightarrow> sys_state
   \<Rightarrow> (exn + string list) \<times> sys_state" where
  "extract_loop run video_path output_dir [] frame_files st = (Inr frame_files, st)"
| "extract_loop run video_path output_dir ((idx, timestamp) # rest) frame_files st =
     (let frame_path = path_join output_dir (frame_name idx);
          cmd = \<lparr>seek = timestamp, source = video_path, target = frame_path\<rparr>;
          (status, files') = run cmd (files st);
          st' = st\<lparr>files := files', calls := calls st @ [cmd]\<rparr>
      in case status of
           Some stderr \<Rightarrow> (Inl (CalledProcessError stderr), st')
         | None \<Rightarrow>
             extract_loop run video_path output_dir rest
               (if frame_path \<in> files' then frame_files @ [frame_path] else frame_files) st')"

text \<open>
  \<open>extract_frames(num_frames, output_dir, skip_start_seconds, skip_end_seconds)\<close>.
  \<open>mkdtemp\<close> is the name that \<open>tempfile.mkdtemp\<close> returns; creating a directory is
  modelled as always succeeding. Line 122 computes the usable span with two subtractions,
  each rounded.
\<close>

definition usable_span :: "rounding \<Rightarrow> rat \<Rightarrow> rat \<Rightarrow> rat \<Rightarrow> rat" where
  "usable_span rnd duration_v skip_start_seconds skip_end_seconds =
     fsub rnd (fsub rnd duration_v skip_start_seconds) skip_end_seconds"

definition extract_frames ::
  "rounding \<Rightarrow> tool \<Rightarrow> string \<Rightarrow> string \<Rightarrow> video_metadata \<Rightarrow> int \<Rightarrow> string option
   \<Rightarrow> rat \<Rightarrow> rat \<Rightarrow> sys_state \<Rightarrow> (exn + string list) \<times> sys_state" where
  "extract_frames rnd run mkdtemp video_path metadata num_frames output_dir
     skip_start_seconds skip_end_seconds st =
     (let (output_dir', st1) =
            (case output_dir of
               None \<Rightarrow> (mkdtemp, st\<lparr>temp_dir := Some mkdtemp, files := insert mkdtemp (files st)\<rparr>)
             | Some d \<Rightarrow> (d, st\<lparr>files := insert d (files st)\<rparr>));
          usable_duration =
            usable_span rnd (duration metadata) skip_start_seconds skip_end_seconds
      in if usable_duration \<le> 0
         then (Inl (ValueError ''Video too short after skipping start/end''), st1)
         else case timestamps rnd skip_start_seconds usable_duration num_frames of
           Inl e \<Rightarrow> (Inl e, st1)
         | Inr ts \<Rightarrow>
             (case extract_loop run video_path output_dir' (enumerate 1 ts) [] st1 of
                (Inl (CalledProcessError stderr), st2) \<Rightarrow>
                  (Inl (RuntimeError (''FFmpeg failed to extract frames: '' @ stderr)), st2)
              | (Inl e, st2) \<Rightarrow> (Inl e, st2)
              | (Inr frame_files, st2) \<Rightarrow>
                  if frame_files = [] then (Inl (RuntimeError ''No frames were extracted''), st2)
                  else (Inr (sort frame_files), st2)))"

section \<open>video.py: VideoProcessor._get_metadata\<close>

text \<open>\<open>d.get(k, default)\<close> and \<open>d[k]\<close> for a string key, on any decoded value.\<close>

definition dict_get :: "json \<Rightarrow> string \<Rightarrow> json \<Rightarrow> exn + json" where
  "dict_get d k dflt =
     (case d of
        JObj kvs \<Rightarrow> (case map_of kvs k of None \<Rightarrow> Inr dflt | Some v \<Rightarrow> Inr v)
      | _ \<Rightarrow> Inl AttributeError)"

definition subscript :: "json \<Rightarrow> string \<Rightarrow> exn + json" where
  "subscript d k =
     (case d of
        JObj kvs \<Rightarrow> (case map_of kvs k of None \<Rightarrow> Inl (KeyError k) | Some v \<Rightarrow> Inr v)
      | _ \<Rightarrow> Inl TypeError)"

text \<open>The elements that a \<open>for\<close> over a decoded value visits.\<close>

definition iterate :: "json \<Rightarrow> exn + json list" where
  "iterate v =
     (case v of
        JArr xs \<Rightarrow> Inr xs
      | JObj kvs \<Rightarrow> Inr (map (\<lambda>kv. JStr (fst kv)) kvs)
      | JStr s \<Rightarrow> Inr (map (\<lambda>c. JStr [c]) s)
      | _ \<Rightarrow> Inl TypeError)"

text \<open>
  \<open>float(x)\<close> and \<open>int(x)\<close>. The conversions of a string are parameters
  (\<open>None\<close> where Python raises \<open>ValueError\<close>); \<open>str_float\<close> yields a double.
\<close>

definition py_float :: "rounding \<Rightarrow> (string \<Rightarrow> rat option) \<Rightarrow> json \<Rightarrow> exn + rat" where
  "py_float rnd str_float x =
     (case x of
        JStr s \<Rightarrow> (case str_float s of
                     None \<Rightarrow> Inl (ValueError (''could not convert string to float: '' @ s))
                   | Some r \<Rightarrow> Inr r)
      | JInt i \<Rightarrow> Inr (int_float rnd i)
      | JFloat r \<Rightarrow> Inr r
      | JBool b \<Rightarrow> Inr (if b then 1 else 0)
      | _ \<Rightarrow> Inl TypeError)"

definition py_int :: "(string \<Rightarrow> int option) \<Rightarrow> json \<Rightarrow> exn + int" where
  "py_int str_int x =
     (case x of
        JStr s \<Rightarrow> (case str_int s of
                     None \<Rightarrow> Inl (ValueError (''invalid literal for int() with base 10: '' @ s))
                   | Some i \<Rightarrow> Inr i)
      | JInt i \<Rightarrow> Inr i
      | JFloat r \<Rightarrow> Inr (if 0 \<le> r then \<lfloor>r\<rfloor> else \<lceil>r\<rceil>)
      | JBool b \<Rightarrow> Inr (if b then 1 else 0)
      | _ \<Rightarrow> Inl TypeError)"

text \<open>\<open>s.split(sep)\<close> for a separator of one character.\<close>

fun split_on :: "char \<Rightarrow> string \<Rightarrow> string list" where
  "split_on sep [] = [[]]"
| "split_on sep (c # cs) =
     (if c = sep then [] # split_on sep cs
      else (case split_on sep cs of [] \<Rightarrow> [[c]] | p # ps \<Rightarrow> (c # p) # ps))"

text \<open>\<open>x.split(sep)\<close>: only a \<open>str\<close> has the method.\<close>

definition str_split :: "json \<Rightarrow> char \<Rightarrow> exn + string list" where
  "str_split x sep = (case x of JStr s \<Rightarrow> Inr (split_on sep s) | _ \<Rightarrow> Inl AttributeError)"

text \<open>
  Lines 62 to 65: the first element of \<open>data["streams"]\<close> whose \<open>codec_type\<close> is
  \<open>"video"\<close>, or \<open>None\<close>. The generator stops at the first match.
\<close>

fun find_video_stream :: "json list \<Rightarrow> exn + json option" where
  "find_video_stream [] = Inr None"
| "find_video_stream (s # ss) =
     (case subscript s ''codec_type'' of
        Inl e \<Rightarrow> Inl e
      | Inr t \<Rightarrow> if t = JStr ''video'' then Inr (Some s) else find_video_stream ss)"

text \<open>
  Lines 71 to 73:
  \<open>fps_str = video_stream.get("r_frame_rate", "30/1"); fps_parts = fps_str.split("/");
  fps = float(fps_parts[0]) / float(fps_parts[1])\<close>
\<close>

definition extract_fps :: "rounding \<Rightarrow> (string \<Rightarrow> rat option) \<Rightarrow> json \<Rightarrow> exn + rat" where
  "extract_fps rnd str_float video_stream =
     try_bind (dict_get video_stream ''r_frame_rate'' (JStr ''30/1'')) (\<lambda>fps_str.
     try_bind (str_split fps_str CHR ''/'') (\<lambda>fps_parts.
     try_bind (list_index fps_parts 0) (\<lambda>part0.
     try_bind (py_float rnd str_float (JStr part0)) (\<lambda>num.
     try_bind (list_index fps_parts 1) (\<lambda>part1.
     try_bind (py_float rnd str_float (JStr part1)) (\<lambda>den.
       truediv rnd num den))))))"

text \<open>The body of the \<open>try\<close> after \<open>json.loads\<close>, lines 61 to 82.\<close>

definition metadata_of ::
  "rounding \<Rightarrow> (string \<Rightarrow> rat option) \<Rightarrow> (string \<Rightarrow> int option) \<Rightarrow> json
   \<Rightarrow> exn + video_metadata" where
  "metadata_of rnd str_float str_int data =
     try_bind (subscript data ''streams'') (\<lambda>streams.
     try_bind (iterate streams) (\<lambda>ss.
     try_bind (find_video_stream ss) (\<lambda>found.
       case found of
         None \<Rightarrow> Inl (ValueError ''No video stream found in file'')
       | Some video_stream \<Rightarrow>
     try_bind (extract_fps rnd str_float video_stream) (\<lambda>fps_v.
     try_bind (subscript data ''format'') (\<lambda>fmt.
     try_bind (dict_get fmt ''duration'' (JInt 0)) (\<lambda>d.
     try_bind (py_float rnd str_float d) (\<lambda>duration_v.
     try_bind (dict_get video_stream ''width'' (JInt 0)) (\<lambda>w.
     try_bind (py_int str_int w) (\<lambda>width_v.
     try_bind (dict_get video_stream ''height'' (JInt 0)) (\<lambda>h.
     try_bind (py_int str_int h) (\<lambda>height_v.
     try_bind (dict_get video_stream ''codec_name'' (JStr ''unknown'')) (\<lambda>codec_v.
     try_bind (subscript data ''format'') (\<lambda>fmt2.
     try_bind (dict_get fmt2 ''bit_rate'' (JInt 0)) (\<lambda>b.
     try_bind (py_int str_int b) (\<lambda>bitrate_v.
       Inr \<lparr>duration = duration_v, width = width_v, height = height_v, fps = fps_v,
            codec = codec_v, bitrate = bitrate_v\<rparr>)))))))))))))))"

text \<open>
  The two \<open>except\<close> clauses of lines 84 to 87. Every other exception leaves
  \<open>_get_metadata\<close> as it is.
\<close>

fun metadata_handler :: "exn \<Rightarrow> exn" where
  "metadata_handler (CalledProcessError stderr) = RuntimeError (''FFprobe failed: '' @ stderr)"
| "metadata_handler JSONDecodeError =
     RuntimeError (''Failed to parse video metadata: '' @ exn_str JSONDecodeError)"
| "metadata_handler (KeyError k) =
     RuntimeError (''Failed to parse video metadata: '' @ exn_str (KeyError k))"
| "metadata_handler (ValueError m) =
     RuntimeError (''Failed to parse video metadata: '' @ exn_str (ValueError m))"
| "metadata_handler e = e"

text \<open>
  \<open>_get_metadata\<close>. \<open>probe\<close> is the outcome of running the inspection tool on the file:
  its standard error when it exits with a non-zero status, its standard output otherwise.
  \<open>loads\<close> is \<open>json.loads\<close> (\<open>None\<close> where it raises \<open>JSONDecodeError\<close>).
\<close>

definition get_metadata ::
  "rounding \<Rightarrow> (string \<Rightarrow> json option) \<Rightarrow> (string \<Rightarrow> rat option) \<Rightarrow> (string \<Rightarrow> int option)
   \<Rightarrow> string + string \<Rightarrow> exn + video_metadata" where
  "get_metadata rnd loads str_float str_int probe =
     (case (case probe of
              Inl stderr \<Rightarrow> Inl (CalledProcessError stderr)
            | Inr stdout \<Rightarrow>
                (case loads stdout of
                   None \<Rightarrow> Inl JSONDecodeError
                 | Some data \<Rightarrow> metadata_of rnd str_float str_int data)) of
        Inl e \<Rightarrow> Inl (metadata_handler e)
      | Inr m \<Rightarrow> Inr m)"

text \<open>
  \<open>VideoProcessor.__init__\<close>: the existence check, then the metadata. The path is used as it
  is given.
\<close>

definition video_processor_init ::
  "rounding \<Rightarrow> (string \<Rightarrow> json option) \<Rightarrow> (string \<Rightarrow> rat option) \<Rightarrow> (string \<Rightarrow> int option)
   \<Rightarrow> (string \<Rightarrow> string + string) \<Rightarrow> string set \<Rightarrow> string \<Rightarrow> exn + video_metadata" where
  "video_processor_init rnd loads str_float str_int ffprobe fs video_path =
     (if video_path \<notin> fs then Inl (FileNotFoundError (''Video file not found: '' @ video_path))
      else get_metadata rnd loads str_float str_int (ffprobe video_path))"

section \<open>analyzer.py: FrameAnalyzer.analyze_frames\<close>

text \<open>
  \<open>re.search(r'\{.*\}', text, re.DOTALL)\<close>: the leftmost match starts at the first opening
  brace and, the star being greedy and the dot matching every character, ends at the last
  closing brace after it. \<open>None\<close> when no closing brace follows the first opening brace.
\<close>

definition re_search_braces :: "string \<Rightarrow> string option" where
  "re_search_braces text =
     (let from_open = dropWhile (\<lambda>c. c \<noteq> CHR ''{'') text in
      if from_open = [] then None
      else
        let upto_close = rev (dropWhile (\<lambda>c. c \<noteq> CHR ''}'') (rev (tl from_open)))
        in if upto_close = [] then None else Some (CHR ''{'' # upto_close))"

record frame_analysis =
  best_frame_index :: json
  best_frame_path :: string
  reasoning :: json
  scores :: json
  raw_response :: string

text \<open>
  \<open>frame_paths[best_index]\<close>: an \<open>int\<close> (or a \<open>bool\<close>, which is an \<open>int\<close> in Python) indexes
  the list, every other value raises \<open>TypeError\<close>. \<open>as_index\<close> is the integer that a value
  stands for as an index.
\<close>

definition as_index :: "json \<Rightarrow> int option" where
  "as_index idx =
     (case idx of
        JInt i \<Rightarrow> Some i
      | JBool b \<Rightarrow> Some (if b then 1 else 0)
      | _ \<Rightarrow> None)"

definition getitem :: "'a list \<Rightarrow> json \<Rightarrow> exn + 'a" where
  "getitem xs idx =
     (case as_index idx of
        Some i \<Rightarrow> list_index xs i
      | None \<Rightarrow> Inl TypeError)"

text \<open>
  Lines 172 to 189: the decoded analysis, or the fallback when the response holds no match.
\<close>

definition extract_analysis :: "(string \<Rightarrow> json option) \<Rightarrow> string \<Rightarrow> exn + json" where
  "extract_analysis loads response_text =
     (case re_search_braces response_text of
        Some json_match \<Rightarrow>
          (case loads json_match of None \<Rightarrow> Inl JSONDecodeError | Some analysis \<Rightarrow> Inr analysis)
      | None \<Rightarrow>
          Inr (JObj [(''best_frame_index'', JInt 0),
                     (''reasoning'', JStr response_text),
                     (''frames'', JArr [])]))"

text \<open>
  The body of the \<open>try\<close>, lines 162 to 199. \<open>response\<close> is the outcome of
  \<open>self.client.messages.create\<close>: an exception, or the texts of the content blocks.
\<close>

definition analyze_response ::
  "(string \<Rightarrow> json option) \<Rightarrow> exn + string list \<Rightarrow> string list \<Rightarrow> exn + frame_analysis" where
  "analyze_response loads response frame_paths =
     try_bind response (\<lambda>content.
     try_bind (list_index content 0) (\<lambda>response_text.
     try_bind (extract_analysis loads response_text) (\<lambda>analysis.
     try_bind (dict_get analysis ''best_frame_index'' (JInt 0)) (\<lambda>best_index.
     try_bind (getitem frame_paths best_index) (\<lambda>path.
     try_bind (dict_get analysis ''reasoning'' (JStr [])) (\<lambda>reasoning_v.
     try_bind (dict_get analysis ''frames'' (JArr [])) (\<lambda>scores_v.
       Inr \<lparr>best_frame_index = best_index, best_frame_path = path, reasoning = reasoning_v,
            scores = scores_v, raw_response = response_text\<rparr>)))))))"

text \<open>The two \<open>except\<close> clauses of lines 201 to 204: every exception is wrapped.\<close>

fun analyze_handler :: "exn \<Rightarrow> exn" where
  "analyze_handler (APIError m) = RuntimeError (''Claude API error: '' @ m)"
| "analyze_handler e = RuntimeError (''Failed to analyze frames: '' @ exn_str e)"

text \<open>
  \<open>analyze_frames(frame_paths, video_description, criteria)\<close>. The checks before the
  \<open>try\<close> raise unwrapped; reading an existing frame file is modelled as succeeding. The
  request is built from the arguments and sent only when every frame exists.
\<close>

definition analyze_frames ::
  "(string \<Rightarrow> json option) \<Rightarrow> string set \<Rightarrow> exn + string list \<Rightarrow> string list
   \<Rightarrow> exn + frame_analysis" where
  "analyze_frames loads fs response frame_paths =
     (if frame_paths = [] then Inl (ValueError ''No frames provided for analysis'')
      else case find (\<lambda>frame_path. frame_path \<notin> fs) frame_paths of
        Some frame_path \<Rightarrow> Inl (FileNotFoundError (''Frame not found: '' @ frame_path))
      | None \<Rightarrow>
          (case analyze_response loads response frame_paths of
             Inl e \<Rightarrow> Inl (analyze_handler e)
           | Inr r \<Rightarrow> Inr r))"

section \<open>composer.py: ThumbnailComposer\<close>

text \<open>The values of a style dictionary.\<close>

datatype pyval =
    PNone
  | PBool bool
  | PInt int
  | PFloat rat
  | PStr string
  | PTuple "int list"

type_synonym dict = "(string \<times> pyval) list"

text \<open>
  Dictionaries are objects: a variable holds a reference, and two variables may hold the
  same one. The store lists the dictionary objects; a reference is a position in it.
\<close>

type_synonym store = "dict list"

definition youtube_style :: dict where
  "youtube_style =
     [(''font_size_main'', PInt 72), (''font_size_sub'', PInt 36),
      (''text_color'', PTuple [255, 255, 255]), (''outline_color'', PTuple [0, 0, 0]),
      (''outline_width'', PInt 4), (''position'', PStr ''center''),
      (''background_opacity'', PFloat (3 / 10)), (''shadow'', PBool True), (''bold'', PBool True)]"

definition minimalist_style :: dict where
  "minimalist_style =
     [(''font_size_main'', PInt 60), (''font_size_sub'', PInt 30),
      (''text_color'', PTuple [255, 255, 255]), (''outline_color'', PNone),
      (''outline_width'', PInt 0), (''position'', PStr ''bottom''),
      (''background_opacity'', PFloat (5 / 10)), (''shadow'', PBool False), (''bold'', PBool False)]"

definition bold_style :: dict where
  "bold_style =
     [(''font_size_main'', PInt 120), (''font_size_sub'', PInt 50),
      (''text_color'', PTuple [255, 215, 0]), (''outline_color'', PTuple [0, 0, 0]),
      (''outline_width'', PInt 6), (''position'', PStr ''center''),
      (''background_opacity'', PFloat (4 / 10)), (''shadow'', PBool True), (''bold'', PBool True)]"

definition tech_style :: dict where
  "tech_style =
     [(''font_size_main'', PInt 64), (''font_size_sub'', PInt 32),
      (''text_color'', PTuple [0, 255, 255]), (''outline_color'', PTuple [0, 0, 0]),
      (''outline_width'', PInt 3), (''position'', PStr ''top''),
      (''background_opacity'', PFloat (6 / 10)), (''shadow'', PBool True), (''bold'', PBool False)]"

text \<open>
  The class attribute \<open>STYLES\<close>: the four preset objects, and the name of each reference.
\<close>

definition STYLES_store :: store where
  "STYLES_store = [youtube_style, minimalist_style, bold_style, tech_style]"

definition STYLES :: "(string \<times> nat) list" where
  "STYLES = [(''youtube'', 0), (''minimalist'', 1), (''bold'', 2), (''tech'', 3)]"

record composer =
  style_name :: string
  style :: nat

text \<open>
  \<open>__init__\<close>: \<open>self.style = self.STYLES.get(style, self.STYLES["youtube"])\<close>, a reference
  to the preset object itself.
\<close>

definition composer_init :: "string \<Rightarrow> composer" where
  "composer_init name =
     \<lparr>style_name = name, style = (case map_of STYLES name of None \<Rightarrow> 0 | Some r \<Rightarrow> r)\<rparr>"

text \<open>\<open>d.copy()\<close>: a new object with the same items.\<close>

definition dict_copy :: "store \<Rightarrow> nat \<Rightarrow> nat \<times> store" where
  "dict_copy h r = (length h, h @ [h ! r])"

text \<open>\<open>d.update(other)\<close>: every item of \<open>other\<close> is stored in the object \<open>d\<close>, in order.\<close>

definition dict_update :: "store \<Rightarrow> nat \<Rightarrow> dict \<Rightarrow> store" where
  "dict_update h r other = h[r := fold (\<lambda>kv. AList.update (fst kv) (snd kv)) other (h ! r)]"

text \<open>
  Lines 283 to 286 of \<open>compose\<close>:
  \<open>style = self.style.copy(); if custom_style: style.update(custom_style)\<close>.
  The result is the reference held by the local variable \<open>style\<close> and the store.
\<close>

definition compose_style :: "composer \<Rightarrow> dict option \<Rightarrow> store \<Rightarrow> nat \<times> store" where
  "compose_style self custom_style h =
     (let (style_ref, h1) = dict_copy h (style self)
      in case custom_style of
           None \<Rightarrow> (style_ref, h1)
         | Some other \<Rightarrow>
             if other \<noteq> [] then (style_ref, dict_update h1 style_ref other) else (style_ref, h1))"

subsection \<open>Word wrap\<close>

text \<open>
  \<open>str.isspace\<close> on the ASCII range; \<open>text.split()\<close> splits on runs of such characters
  and yields no empty word.
\<close>

definition is_space :: "char \<Rightarrow> bool" where
  "is_space c = (let n = (of_char c :: nat) in (9 \<le> n \<and> n \<le> 13) \<or> (28 \<le> n \<and> n \<le> 32))"

fun split_words :: "string \<Rightarrow> string \<Rightarrow> string list" where
  "split_words w [] = (if w = [] then [] else [w])"
| "split_words w (c # cs) =
     (if is_space c then (if w = [] then split_words [] cs else w # split_words [] cs)
      else split_words (w @ [c]) cs)"

definition str_split_ws :: "string \<Rightarrow> string list" where
  "str_split_ws text = split_words [] text"

text \<open>\<open>" ".join(ws)\<close>\<close>

fun join_space :: "string list \<Rightarrow> string" where
  "join_space [] = []"
| "join_space [w] = w"
| "join_space (w # ws) = w @ '' '' @ join_space ws"

text \<open>
  The loop of \<open>_wrap_text\<close>, lines 180 to 190. \<open>getwidth\<close> is the pixel width that the font
  reports for a string: \<open>bbox = font.getbbox(s); bbox[2] - bbox[0]\<close>.
\<close>

fun wrap_loop ::
  "(string \<Rightarrow> int) \<Rightarrow> int \<Rightarrow> string list \<Rightarrow> string list \<Rightarrow> string list
   \<Rightarrow> string list \<times> string list" where
  "wrap_loop getwidth max_width [] lines current_line = (lines, current_line)"
| "wrap_loop getwidth max_width (word # ws) lines current_line =
     (let test_line = join_space (current_line @ [word]);
          width_v = getwidth test_line
      in if width_v \<le> max_width
         then wrap_loop getwidth max_width ws lines (current_line @ [word])
         else wrap_loop getwidth max_width ws
                (if current_line \<noteq> [] then lines @ [join_space current_line] else lines)
                [word])"

definition wrap_text :: "(string \<Rightarrow> int) \<Rightarrow> string \<Rightarrow> int \<Rightarrow> string list" where
  "wrap_text getwidth text max_width =
     (let (lines, current_line) = wrap_loop getwidth max_width (str_split_ws text) [] []
      in if current_line \<noteq> [] then lines @ [join_space current_line] else lines)"

text \<open>
  The literal \<open>0.9\<close>: the double nearest to nine tenths. \<open>int(x)\<close> on a float truncates
  towards zero.
\<close>

definition float_0_9 :: rat where
  "float_0_9 = 8106479329266893 / 9007199254740992"

definition float_int :: "rat \<Rightarrow> int" where
  "float_int x = (if 0 \<le> x then \<lfloor>x\<rfloor> else \<lceil>x\<rceil>)"

text \<open>
  Lines 313 and 314 of \<open>compose\<close>: \<open>max_width = int(resolution[0] * 0.9)\<close> and the wrapped
  main text.
\<close>

definition compose_max_width :: "rounding \<Rightarrow> int \<times> int \<Rightarrow> int" where
  "compose_max_width rnd resolution =
     float_int (fmul rnd (int_float rnd (fst resolution)) float_0_9)"

definition compose_main_lines ::
  "rounding \<Rightarrow> (string \<Rightarrow> int) \<Rightarrow> string \<Rightarrow> int \<times> int \<Rightarrow> string list" where
  "compose_main_lines rnd getwidth main_text resolution =
     wrap_text getwidth main_text (compose_max_width rnd resolution)"

section \<open>cli/main.py: generate\<close>

text \<open>\<open>os.path.dirname\<close> of \<open>posixpath\<close>.\<close>

definition dirname :: "string \<Rightarrow> string" where
  "dirname p =
     (let head = rev (dropWhile (\<lambda>c. c \<noteq> CHR ''/'') (rev p))
      in if head \<noteq> [] \<and> \<not> list_all (\<lambda>c. c = CHR ''/'') head
         then rev (dropWhile (\<lambda>c. c = CHR ''/'') (rev head))
         else head)"

text \<open>\<open>shutil.rmtree(d)\<close>: the directory and everything below it no longer exist.\<close>

definition rmtree :: "string \<Rightarrow> string set \<Rightarrow> string set" where
  "rmtree d fs = Set.filter (\<lambda>p. \<not> (p = d \<or> take (Suc (length d)) p = d @ ''/'')) fs"

text \<open>Lines 88 and 89: \<open>res_map\<close>.\<close>

definition res_map :: "(string \<times> int \<times> int) list" where
  "res_map = [(''720p'', (1280, 720)), (''1080p'', (1920, 1080))]"

text \<open>Lines 113 to 128: the resolution of the thumbnail, from the probed dimensions.\<close>

definition target_resolution :: "int \<times> int \<Rightarrow> video_metadata \<Rightarrow> int \<times> int" where
  "target_resolution base_resolution metadata =
     (let video_width = width metadata;
          video_height = height metadata;
          is_vertical = video_height > video_width
      in if is_vertical then (snd base_resolution, fst base_resolution) else base_resolution)"

text \<open>
  How the command ends: with the final path; with the message of a \<open>FileNotFoundError\<close>
  or \<open>RuntimeError\<close> and exit status 1; with the traceback of any other exception raised
  inside the \<open>try\<close> and exit status 1; or with an exception raised before the \<open>try\<close>.
\<close>

datatype cli_outcome =
    Done string
  | Failed string
  | Unexpected exn
  | Uncaught exn

fun generate_handler :: "exn \<Rightarrow> cli_outcome" where
  "generate_handler (FileNotFoundError m) = Failed m"
| "generate_handler (RuntimeError m) = Failed m"
| "generate_handler e = Unexpected e"

text \<open>
  What \<open>generate\<close> runs on: the rounding of the float arithmetic, the decoders and the two
  external tools of the first step, and
  the second and third steps as functions of their arguments. \<open>run_analyze\<close> stands for
  \<open>FrameAnalyzer().analyze_and_generate(frame_paths, prompt, style=style, max_words=6)\<close> and
  yields the chosen frame path and the text; \<open>run_compose\<close> stands for
  \<open>ThumbnailComposer(style).create_thumbnail_from_analysis(best_frame_path, text_result,
  output, resolution=target_resolution)\<close>.
\<close>

record cli_env =
  run_round :: rounding
  run_loads :: "string \<Rightarrow> json option"
  run_str_float :: "string \<Rightarrow> rat option"
  run_str_int :: "string \<Rightarrow> int option"
  run_ffprobe :: "string \<Rightarrow> string + string"
  run_ffmpeg :: tool
  run_analyze :: "string list \<Rightarrow> string \<Rightarrow> string \<Rightarrow> exn + string \<times> json"
  run_compose :: "string \<Rightarrow> string \<Rightarrow> json \<Rightarrow> string \<Rightarrow> int \<times> int \<Rightarrow> exn + string"

text \<open>
  The result of a run: how it ended, the state it left, and the resolution handed to the
  composition step when that step was reached.
\<close>

record cli_result =
  outcome :: cli_outcome
  final_state :: sys_state
  composed_at :: "(int \<times> int) option"

definition generate ::
  "cli_env \<Rightarrow> string \<Rightarrow> string \<Rightarrow> string option \<Rightarrow> string \<Rightarrow> string \<Rightarrow> int \<Rightarrow> sys_state
   \<Rightarrow> cli_result" where
  "generate env video_path prompt output style_v resolution frames st =
     (let output' = (case output of
                       None \<Rightarrow> ''./output/thumbnail.jpg''
                     | Some p \<Rightarrow> if p = [] then ''./output/thumbnail.jpg'' else p)
      in case map_of res_map resolution of
        None \<Rightarrow> \<lparr>outcome = Uncaught (KeyError resolution), final_state = st, composed_at = None\<rparr>
      | Some base_resolution \<Rightarrow>
          (case video_processor_init (run_round env) (run_loads env) (run_str_float env)
                  (run_str_int env) (run_ffprobe env) (files st) video_path of
             Inl e \<Rightarrow> \<lparr>outcome = generate_handler e, final_state = st, composed_at = None\<rparr>
           | Inr metadata \<Rightarrow>
               (let target = target_resolution base_resolution metadata;
                    frame_output_dir = path_join (dirname output') ''frames_temp'';
                    (frame_paths, st1) =
                      extract_frames (run_round env) (run_ffmpeg env) [] video_path metadata frames
                        (Some frame_output_dir) 2 2 (st\<lparr>temp_dir := None\<rparr>)
                in case frame_paths of
                     Inl e \<Rightarrow>
                       \<lparr>outcome = generate_handler e, final_state = st1, composed_at = None\<rparr>
                   | Inr paths \<Rightarrow>
                       (case run_analyze env paths prompt style_v of
                          Inl e \<Rightarrow>
                            \<lparr>outcome = generate_handler e, final_state = st1, composed_at = None\<rparr>
                        | Inr (best_frame_path_v, text_result) \<Rightarrow>
                            (case run_compose env style_v best_frame_path_v text_result output' target of
                               Inl e \<Rightarrow>
                                 \<lparr>outcome = generate_handler e, final_state = st1,
                                  composed_at = Some target\<rparr>
                             | Inr final_path \<Rightarrow>
                                 \<lparr>outcome = Done final_path,
                                  final_state = st1\<lparr>files := rmtree frame_output_dir (files st1)\<rparr>,
                                  composed_at = Some target\<rparr>)))))"

section \<open>Decoders and tools for the worked examples\<close>

text \<open>
  The general results below hold for every decoder and every tool. The worked examples
  need concrete ones. \<open>dec_int\<close> and \<open>dec_float\<close> agree with \<open>int\<close> and \<open>float\<close> on an
  optional sign followed by decimal digits (and, for \<open>dec_float\<close>, an optional fraction,
  the value being rounded to the nearest double);
  \<open>json_loads\<close> agrees with \<open>json.loads\<close> on documents built from objects, arrays, strings
  without escapes, integers and the three literals. Outside these fragments they answer
  \<open>None\<close> and are not used.
\<close>

text \<open>
  Rounding to the nearest double, ties to the even significand: for \<open>x \<noteq> 0\<close> with
  \<open>2 ^ k \<le> \<bar>x\<bar> < 2 ^ (k + 1)\<close> the doubles near \<open>x\<close> are the multiples of \<open>2 ^ e\<close>, where
  \<open>e = max (k - 52) (- 1074)\<close>. \<open>floor_log2 p q\<close> is the \<open>k\<close> of \<open>p / q\<close>.
\<close>

function log2_up :: "int \<Rightarrow> int \<Rightarrow> int" where
  "log2_up p q = (if 0 < q \<and> 2 * q \<le> p then 1 + log2_up p (2 * q) else 0)"
  by pat_completeness auto
termination
  by (relation "measure (\<lambda>(p, q). nat (p - q))") auto

function log2_down :: "int \<Rightarrow> int \<Rightarrow> int" where
  "log2_down p q = (if 0 < p \<and> p < q then 1 + log2_down (2 * p) q else 0)"
  by pat_completeness auto
termination
  by (relation "measure (\<lambda>(p, q). nat (q - p))") auto

definition floor_log2 :: "int \<Rightarrow> int \<Rightarrow> int" where
  "floor_log2 p q = (if q \<le> p then log2_up p q else - log2_down p q)"

definition rnd_double :: rounding where
  "rnd_double x =
     (if x = 0 then 0
      else
        let (p, q) = quotient_of \<bar>x\<bar>;
            e = max (floor_log2 p q - 52) (- 1074);
            num = (if 0 \<le> e then p else p * 2 ^ nat (- e));
            den = (if 0 \<le> e then q * 2 ^ nat e else q);
            m = num div den;
            r = num mod den;
            m' = (if 2 * r < den then m
                  else if den < 2 * r then m + 1
                  else if even m then m else m + 1)
        in sgn x * (of_int m' * (if 0 \<le> e then 2 ^ nat e else 1 / 2 ^ nat (- e))))"

text \<open>The doubles that the literals \<open>0.3\<close>, \<open>0.7\<close> and \<open>61.7\<close> denote.\<close>

definition float_0_3 :: rat where
  "float_0_3 = 5404319552844595 / 18014398509481984"

definition float_0_7 :: rat where
  "float_0_7 = 3152519739159347 / 4503599627370496"

definition float_61_7 :: rat where
  "float_61_7 = 4341751515761869 / 70368744177664"

definition is_digit :: "char \<Rightarrow> bool" where
  "is_digit c = (let n = (of_char c :: nat) in 48 \<le> n \<and> n \<le> 57)"

definition digits_val :: "string \<Rightarrow> nat" where
  "digits_val ds = fold (\<lambda>c n. 10 * n + (of_char c - 48)) ds 0"

definition split_sign :: "string \<Rightarrow> bool \<times> string" where
  "split_sign s =
     (case s of
        [] \<Rightarrow> (False, [])
      | c # cs \<Rightarrow> if c = CHR ''-'' then (True, cs) else if c = CHR ''+'' then (False, cs) else (False, s))"

definition dec_int :: "string \<Rightarrow> int option" where
  "dec_int s =
     (let (neg, ds) = split_sign s
      in if ds \<noteq> [] \<and> list_all is_digit ds
         then Some (if neg then - int (digits_val ds) else int (digits_val ds))
         else None)"

definition dec_float :: "string \<Rightarrow> rat option" where
  "dec_float s =
     (let (neg, body) = split_sign s;
          ip = takeWhile is_digit body;
          rest = dropWhile is_digit body;
          sig = (if neg then - 1 else 1 :: rat)
      in if ip = [] then None
         else if rest = [] then Some (rnd_double (sig * of_nat (digits_val ip)))
         else if hd rest = CHR ''.'' \<and> list_all is_digit (tl rest)
         then Some (rnd_double (sig * (of_nat (digits_val ip)
                                       + of_nat (digits_val (tl rest)) / 10 ^ length (tl rest))))
         else None)"

definition skip_ws :: "string \<Rightarrow> string" where
  "skip_ws s = dropWhile (\<lambda>c. c = CHR '' '' \<or> c = CHR 0x09 \<or> c = CHR 0x0A \<or> c = CHR 0x0D) s"

text \<open>The characters of a string up to the closing quote; an escape is outside the fragment.\<close>

fun parse_chars :: "string \<Rightarrow> string \<Rightarrow> (string \<times> string) option" where
  "parse_chars acc [] = None"
| "parse_chars acc (c # cs) =
     (if c = CHR 0x22 then Some (rev acc, cs)
      else if c = CHR 0x5C \<or> (of_char c :: nat) < 32 then None
      else parse_chars (c # acc) cs)"

definition parse_number :: "string \<Rightarrow> (json \<times> string) option" where
  "parse_number s =
     (let (neg, body) = (case s of
                           [] \<Rightarrow> (False, [])
                         | c # cs \<Rightarrow> if c = CHR ''-'' then (True, cs) else (False, s));
          ds = takeWhile is_digit body;
          rest = dropWhile is_digit body
      in if ds = [] \<or> (hd ds = CHR ''0'' \<and> tl ds \<noteq> []) then None
         else if rest \<noteq> [] \<and> (hd rest = CHR ''.'' \<or> hd rest = CHR ''e'' \<or> hd rest = CHR ''E'')
         then None
         else Some (JInt (if neg then - int (digits_val ds) else int (digits_val ds)), rest))"

text \<open>
  A recursive-descent decoder. The first argument bounds the number of nested calls; the
  length of the document is enough.
\<close>

fun parse_value :: "nat \<Rightarrow> string \<Rightarrow> (json \<times> string) option"
  and parse_elements :: "nat \<Rightarrow> json list \<Rightarrow> string \<Rightarrow> (json \<times> string) option"
  and parse_members :: "nat \<Rightarrow> (string \<times> json) list \<Rightarrow> string \<Rightarrow> (json \<times> string) option"
where
  "parse_value 0 s = None"
| "parse_value (Suc n) s =
     (case skip_ws s of
        [] \<Rightarrow> None
      | c # cs \<Rightarrow>
          if c = CHR ''{'' then
            (case skip_ws cs of
               [] \<Rightarrow> None
             | d # ds \<Rightarrow> if d = CHR ''}'' then Some (JObj [], ds) else parse_members n [] (d # ds))
          else if c = CHR ''['' then
            (case skip_ws cs of
               [] \<Rightarrow> None
             | d # ds \<Rightarrow> if d = CHR '']'' then Some (JArr [], ds) else parse_elements n [] (d # ds))
          else if c = CHR 0x22 then
            (case parse_chars [] cs of None \<Rightarrow> None | Some (str, r) \<Rightarrow> Some (JStr str, r))
          else if take 4 (c # cs) = ''true'' then Some (JBool True, drop 4 (c # cs))
          else if take 5 (c # cs) = ''false'' then Some (JBool False, drop 5 (c # cs))
          else if take 4 (c # cs) = ''null'' then Some (JNull, drop 4 (c # cs))
          else parse_number (c # cs))"
| "parse_elements 0 acc s = None"
| "parse_elements (Suc n) acc s =
     (case parse_value n s of
        None \<Rightarrow> None
      | Some (v, r) \<Rightarrow>
          (case skip_ws r of
             [] \<Rightarrow> None
           | c # cs \<Rightarrow>
               if c = CHR '','' then parse_elements n (acc @ [v]) cs
               else if c = CHR '']'' then Some (JArr (acc @ [v]), cs)
               else None))"
| "parse_members 0 acc s = None"
| "parse_members (Suc n) acc s =
     (case skip_ws s of
        [] \<Rightarrow> None
      | c # cs \<Rightarrow>
          if c \<noteq> CHR 0x22 then None
          else
            (case parse_chars [] cs of
               None \<Rightarrow> None
             | Some (k, r) \<Rightarrow>
                 (case skip_ws r of
                    [] \<Rightarrow> None
                  | d # ds \<Rightarrow>
                      if d \<noteq> CHR '':'' then None
                      else
                        (case parse_value n ds of
                           None \<Rightarrow> None
                         | Some (v, r2) \<Rightarrow>
                             (case skip_ws r2 of
                                [] \<Rightarrow> None
                              | e # es \<Rightarrow>
                                  if e = CHR '','' then parse_members n (AList.update k v acc) es
                                  else if e = CHR ''}'' then Some (JObj (AList.update k v acc), es)
                                  else None)))))"

definition json_loads :: "string \<Rightarrow> json option" where
  "json_loads s =
     (case parse_value (Suc (length s)) s of
        None \<Rightarrow> None
      | Some (v, r) \<Rightarrow> if skip_ws r = [] then Some v else None)"

text \<open>An extraction tool that always exits with status 0 and writes its output file.\<close>

definition ffmpeg_ok :: tool where
  "ffmpeg_ok cmd fs = (None, insert (target cmd) fs)"

text \<open>
  An extraction tool for a file whose video stream ends after eight seconds: a seek at or
  beyond the end writes no frame, and the exit status is 0 all the same.
\<close>

definition ffmpeg_short :: tool where
  "ffmpeg_short cmd fs = (None, if seek cmd < 8 then insert (target cmd) fs else fs)"

text \<open>Metadata and a starting state for the worked examples.\<close>

definition clip_1s :: video_metadata where
  "clip_1s = \<lparr>duration = 1, width = 1920, height = 1080, fps = 30, codec = JStr ''h264'',
              bitrate = 0\<rparr>"

definition clip_3s :: video_metadata where
  "clip_3s = \<lparr>duration = 3, width = 1920, height = 1080, fps = 30, codec = JStr ''h264'',
              bitrate = 0\<rparr>"

definition clip_10s :: video_metadata where
  "clip_10s = \<lparr>duration = 10, width = 1920, height = 1080, fps = 30, codec = JStr ''h264'',
               bitrate = 0\<rparr>"

definition start_state :: sys_state where
  "start_state = \<lparr>temp_dir = None, files = {''v.mp4''}, calls = []\<rparr>"

text \<open>
  A run of \<open>generate\<close> on a portrait clip of fifteen seconds: what the inspection tool
  prints for it, the metadata this yields, and stand-ins for the second and third steps
  (the first frame is chosen, the thumbnail is written to the output path).
\<close>

definition probe_portrait :: string where
  "probe_portrait = ''{\"streams\": [{\"codec_type\": \"video\", \"width\": 1080, \"height\": 1920}], \"format\": {\"duration\": \"15\"}}''"

definition clip_portrait :: video_metadata where
  "clip_portrait = \<lparr>duration = 15, width = 1080, height = 1920, fps = 30, codec = JStr ''unknown'',
                    bitrate = 0\<rparr>"

definition ffprobe_portrait :: "string \<Rightarrow> string + string" where
  "ffprobe_portrait path = Inr probe_portrait"

definition analyze_first :: "string list \<Rightarrow> string \<Rightarrow> string \<Rightarrow> exn + string \<times> json" where
  "analyze_first frame_paths prompt style_v = Inr (hd frame_paths, JObj [(''main_text'', JStr prompt)])"

definition compose_to_output ::
  "string \<Rightarrow> string \<Rightarrow> json \<Rightarrow> string \<Rightarrow> int \<times> int \<Rightarrow> exn + string" where
  "compose_to_output style_v frame_path text_result output resolution = Inr output"

definition portrait_env :: cli_env where
  "portrait_env =
     \<lparr>run_round = rnd_double, run_loads = json_loads, run_str_float = dec_float,
      run_str_int = dec_int,
      run_ffprobe = ffprobe_portrait, run_ffmpeg = ffmpeg_ok, run_analyze = analyze_first,
      run_compose = compose_to_output\<rparr>"

section \<open>Auxiliary notions for the proofs\<close>

text \<open>The decimal digits of a number in a fixed width, least significant digit last.\<close>

fun zpad :: "nat \<Rightarrow> nat \<Rightarrow> string" where
  "zpad 0 n = []"
| "zpad (Suc w) n = zpad w (n div 10) @ [digit_char (n mod 10)]"

text \<open>What precedes the sequence number in a frame path.\<close>

definition frame_prefix :: "string \<Rightarrow> string" where
  "frame_prefix d = (if d = [] \<or> last d = CHR ''/'' then d else d @ ''/'') @ ''frame_''"

text \<open>The invocation that the loop issues for one enumerated timestamp.\<close>

definition frame_cmd :: "string \<Rightarrow> string \<Rightarrow> nat \<times> rat \<Rightarrow> ffmpeg_call" where
  "frame_cmd video_path output_dir it =
     \<lparr>seek = snd it, source = video_path, target = path_join output_dir (frame_name (fst it))\<rparr>"

text \<open>
  The state and the directory after the first lines of \<open>extract_frames\<close>, which create the
  output directory.
\<close>

definition prepared :: "string \<Rightarrow> string option \<Rightarrow> sys_state \<Rightarrow> sys_state" where
  "prepared mkdtemp od st =
     (case od of
        None \<Rightarrow> st\<lparr>temp_dir := Some mkdtemp, files := insert mkdtemp (files st)\<rparr>
      | Some d \<Rightarrow> st\<lparr>files := insert d (files st)\<rparr>)"

definition chosen_dir :: "string \<Rightarrow> string option \<Rightarrow> string" where
  "chosen_dir mkdtemp od = (case od of None \<Rightarrow> mkdtemp | Some d \<Rightarrow> d)"

text \<open>
  The timestamp of the specification, \<open>skipStart + i * usableSpan / (count - 1)\<close>, with
  every operation rounded.
\<close>

definition even_timestamp :: "rounding \<Rightarrow> rat \<Rightarrow> rat \<Rightarrow> int \<Rightarrow> int \<Rightarrow> rat" where
  "even_timestamp rnd skip_start usable count i =
     fadd rnd skip_start
       (rounded rnd (fmul rnd (int_float rnd i) usable / int_float rnd (count - 1)))"

text \<open>
  Every call of a sequence, issued in order from a given set of existing paths, exits
  with status 0 and leaves its output file.
\<close>

fun calls_succeed :: "tool \<Rightarrow> ffmpeg_call list \<Rightarrow> string set \<Rightarrow> bool" where
  "calls_succeed run [] fs = True"
| "calls_succeed run (cmd # cmds) fs =
     (fst (run cmd fs) = None \<and> target cmd \<in> snd (run cmd fs)
      \<and> calls_succeed run cmds (snd (run cmd fs)))"

text \<open>
  The given paths in the order in which the calls that write them were issued.
\<close>

definition chronological :: "ffmpeg_call list \<Rightarrow> string list \<Rightarrow> string list" where
  "chronological issued paths = filter (\<lambda>p. p \<in> set paths) (map target issued)"

text \<open>
  The extraction calls for the even timestamps, in the order of the loop.
\<close>

definition planned_calls ::
  "rounding \<Rightarrow> string \<Rightarrow> string \<Rightarrow> rat \<Rightarrow> rat \<Rightarrow> int \<Rightarrow> ffmpeg_call list" where
  "planned_calls rnd video_path dir skip_start usable count =
     map (frame_cmd video_path dir)
       (enumerate 1 (map (even_timestamp rnd skip_start usable count) [0 .. count - 1]))"

text \<open>A clip of \<open>61.7\<close> seconds.\<close>

definition clip_61_7 :: video_metadata where
  "clip_61_7 = \<lparr>duration = float_61_7, width = 1920, height = 1080, fps = 30,
                codec = JStr ''h264'', bitrate = 0\<rparr>"

text \<open>
  The text contains a substring that opens with a brace and closes with one.
\<close>

definition has_braces :: "string \<Rightarrow> bool" where
  "has_braces text = (\<exists>a b c. text = a @ CHR ''{'' # b @ CHR ''}'' # c)"

definition response_last :: string where
  "response_last = ''{\"best_frame_index\": -1, \"reasoning\": \"the last one\"}''"

definition probe_zero_rate :: string where
  "probe_zero_rate = ''{\"streams\": [{\"codec_type\": \"video\", \"r_frame_rate\": \"0/0\"}], \"format\": {\"duration\": \"12.5\"}}''"

definition zero_rate_stream :: json where
  "zero_rate_stream = JObj [(''codec_type'', JStr ''video''), (''r_frame_rate'', JStr ''0/0'')]"

definition zero_rate_data :: json where
  "zero_rate_data =
     JObj [(''streams'', JArr [zero_rate_stream]),
           (''format'', JObj [(''duration'', JStr ''12.5'')])]"

text \<open>A font in which every character is ten pixels wide, and a text to wrap.\<close>

definition mono_font :: "string \<Rightarrow> int" where
  "mono_font s = 10 * int (length s)"

definition sample_text :: string where
  "sample_text = ''hello  big world supercalifragilistic a b''"

text \<open>An override of one field.\<close>

definition override_top :: dict where
  "override_top = [(''position'', PStr ''top'')]"

section \<open>Frame names and their order\<close>

lemma of_char_digit: "d < 10 \<Longrightarrow> (of_char (digit_char d) :: nat) = 48 + d"
  by (simp add: digit_char_def)

lemma digit_char_less: "a < 10 \<Longrightarrow> b < 10 \<Longrightarrow> digit_char a < digit_char b \<longleftrightarrow> a < b"
  by (simp add: less_char_def of_char_digit)

lemma zero_char: "CHR ''0'' = digit_char 0"
  unfolding digit_char_def by code_simp

lemma length_zpad [simp]: "length (zpad w n) = w"
  by (induction w arbitrary: n) auto

lemma zpad_zero: "zpad w 0 = replicate w (CHR ''0'')"
  by (induction w) (auto simp: zero_char replicate_append_same)

lemma less_append_same_length:
  fixes xs ys :: "'a::linorder list"
  assumes "length xs = length ys"
  shows "xs @ us < ys @ vs \<longleftrightarrow> xs < ys \<or> xs = ys \<and> us < vs"
  using assms by (induction xs ys rule: list_induct2) auto

lemma less_prefix_cancel:
  fixes xs ys :: "'a::linorder list"
  shows "ps @ xs < ps @ ys \<longleftrightarrow> xs < ys"
  by (induction ps) auto

lemma zpad_mono: "i < j \<Longrightarrow> j < 10 ^ w \<Longrightarrow> zpad w i < zpad w j"
proof (induction w arbitrary: i j)
  case 0
  then show ?case by simp
next
  case (Suc w)
  have jd: "j div 10 < 10 ^ w" using Suc.prems(2) by (simp add: less_mult_imp_div_less mult.commute)
  have le: "i div 10 \<le> j div 10" using Suc.prems(1) by (simp add: div_le_mono)
  show ?case
  proof (cases "i div 10 < j div 10")
    case True
    then have "zpad w (i div 10) < zpad w (j div 10)" using Suc.IH jd by blast
    then show ?thesis by (simp add: less_append_same_length)
  next
    case False
    with le have eq: "i div 10 = j div 10" by simp
    have "i mod 10 < j mod 10"
      using Suc.prems(1) eq by (metis div_mult_mod_eq nat_add_left_cancel_less)
    then show ?thesis by (simp add: less_append_same_length eq digit_char_less)
  qed
qed

lemma str_nat_zpad:
  "0 < w \<Longrightarrow> n < 10 ^ w \<Longrightarrow>
     length (str_nat n) \<le> w \<and> replicate (w - length (str_nat n)) (CHR ''0'') @ str_nat n = zpad w n"
proof (induction w arbitrary: n)
  case 0
  then show ?case by simp
next
  case (Suc w)
  show ?case
  proof (cases "n < 10")
    case True
    then show ?thesis by (simp add: str_nat.simps [of n] zpad_zero)
  next
    case False
    then have w: "0 < w" using Suc.prems(2) by (cases w) auto
    have nd: "n div 10 < 10 ^ w" using Suc.prems(2) by (simp add: less_mult_imp_div_less mult.commute)
    from Suc.IH [OF w nd] False show ?thesis
      by (simp add: str_nat.simps [of n] Suc_diff_le)
  qed
qed

lemma format_04d_zpad: "n < 10000 \<Longrightarrow> format_04d n = zpad 4 n"
  using str_nat_zpad [of 4 n] by (simp add: format_04d_def Let_def)

lemma frame_path_eq:
  "path_join output_dir (frame_name idx) = frame_prefix output_dir @ format_04d idx @ ''.jpg''"
  by (simp add: path_join_def frame_name_def frame_prefix_def)

lemma frame_path_mono:
  assumes "i < j" "j < 10000"
  shows "path_join output_dir (frame_name i) < path_join output_dir (frame_name j)"
proof -
  have "zpad 4 i < zpad 4 j" using assms zpad_mono [of i j 4] by simp
  then have "zpad 4 i @ ''.jpg'' < zpad 4 j @ ''.jpg''"
    by (simp add: less_append_same_length)
  then show ?thesis
    using assms by (simp add: frame_path_eq format_04d_zpad less_prefix_cancel)
qed

lemma subseq_set_mono: "subseq xs ys \<Longrightarrow> set xs \<subseteq> set ys"
  by (induction rule: list_emb.induct) auto

lemma subseq_sorted_wrt: "subseq xs ys \<Longrightarrow> sorted_wrt P ys \<Longrightarrow> sorted_wrt P xs"
proof (induction rule: list_emb.induct)
  case (list_emb_Cons xs ys y)
  then show ?case by simp
next
  case (list_emb_Cons2 x y xs ys)
  then show ?case using subseq_set_mono [of xs ys] by auto
qed simp

lemma subseq_filter_mem:
  "subseq xs ys \<Longrightarrow> distinct ys \<Longrightarrow> filter (\<lambda>x. x \<in> set xs) ys = xs"
proof (induction rule: list_emb.induct)
  case (list_emb_Nil ys)
  then show ?case by simp
next
  case (list_emb_Cons xs ys y)
  then have "y \<notin> set xs" using subseq_set_mono [of xs ys] by auto
  with list_emb_Cons show ?case by simp
next
  case (list_emb_Cons2 x y xs ys)
  then have "x \<notin> set ys" by simp
  then have "filter (\<lambda>z. z \<in> set (x # xs)) ys = filter (\<lambda>z. z \<in> set xs) ys"
    by (intro filter_cong) auto
  with list_emb_Cons2 show ?case by simp
qed

section \<open>Properties of extract_frames\<close>

lemma extract_loop_Inr:
  "extract_loop run vp od its ff st = (Inr ff', st') \<Longrightarrow>
     calls st' = calls st @ map (frame_cmd vp od) its \<and>
     temp_dir st' = temp_dir st \<and>
     (\<exists>fs. ff' = ff @ fs \<and> subseq fs (map (\<lambda>it. path_join od (frame_name (fst it))) its))"
proof (induction its arbitrary: ff st)
  case Nil
  then show ?case by simp
next
  case (Cons it its)
  obtain idx t where it: "it = (idx, t)" by (cases it)
  obtain status fs' where run: "run (frame_cmd vp od it) (files st) = (status, fs')"
    by (cases "run (frame_cmd vp od it) (files st)")
  let ?p = "path_join od (frame_name idx)"
  let ?ff2 = "if ?p \<in> fs' then ff @ [?p] else ff"
  let ?st2 = "st\<lparr>files := fs', calls := calls st @ [frame_cmd vp od it]\<rparr>"
  from Cons.prems it run have st: "status = None"
    by (cases status) (auto simp: frame_cmd_def Let_def)
  with Cons.prems it run have "extract_loop run vp od its ?ff2 ?st2 = (Inr ff', st')"
    by (auto simp: frame_cmd_def Let_def)
  from Cons.IH [OF this] obtain fs where
    c: "calls st' = (calls st @ [frame_cmd vp od it]) @ map (frame_cmd vp od) its"
    and t: "temp_dir st' = temp_dir st"
    and f: "ff' = ?ff2 @ fs" "subseq fs (map (\<lambda>it. path_join od (frame_name (fst it))) its)"
    by auto
  show ?case
  proof (cases "?p \<in> fs'")
    case True
    with f have "ff' = ff @ (?p # fs)" by simp
    moreover from f have "subseq (?p # fs) (map (\<lambda>it. path_join od (frame_name (fst it))) (it # its))"
      by (simp add: it)
    ultimately show ?thesis using c t by auto
  next
    case False
    with f have "ff' = ff @ fs" by simp
    moreover from f(2) have "subseq fs (map (\<lambda>it. path_join od (frame_name (fst it))) (it # its))"
      by (simp add: it list_emb_Cons)
    ultimately show ?thesis using c t by auto
  qed
qed

lemma extract_loop_error:
  "extract_loop run vp od its ff st = (Inl e, st') \<Longrightarrow> \<exists>stderr. e = CalledProcessError stderr"
proof (induction its arbitrary: ff st)
  case Nil
  then show ?case by simp
next
  case (Cons it its)
  obtain idx t where it: "it = (idx, t)" by (cases it)
  obtain status fs' where run: "run (frame_cmd vp od it) (files st) = (status, fs')"
    by (cases "run (frame_cmd vp od it) (files st)")
  show ?case
  proof (cases status)
    case None
    with Cons.prems it run obtain ff2 st2 where
      "extract_loop run vp od its ff2 st2 = (Inl e, st')"
      by (auto simp: frame_cmd_def Let_def)
    from Cons.IH [OF this] show ?thesis .
  next
    case (Some err)
    with Cons.prems it run show ?thesis by (auto simp: frame_cmd_def Let_def)
  qed
qed

lemma map_exn_Inr: "(\<And>x. x \<in> set xs \<Longrightarrow> f x = Inr (g x)) \<Longrightarrow> map_exn f xs = Inr (map g xs)"
  by (induction xs) auto

lemma rounded_zero [simp]: "rounded rnd 0 = 0"
  by (simp add: rounded_def)

lemma int_float_zero [simp]: "int_float rnd 0 = 0"
  by (simp add: int_float_def)

lemma timestamps_one:
  "timestamps rnd skip_start_seconds usable_duration 1 = Inl ZeroDivisionError"
  by (simp add: timestamps_def truediv_def)

lemma map_exn_Inl: "xs \<noteq> [] \<Longrightarrow> (\<And>x. x \<in> set xs \<Longrightarrow> f x = Inl e) \<Longrightarrow> map_exn f xs = Inl e"
  by (cases xs) auto

lemma timestamps_Inr:
  "int_float rnd (num_frames - 1) \<noteq> 0 \<Longrightarrow>
   timestamps rnd s u num_frames =
     Inr (map (even_timestamp rnd s u num_frames) [0 .. num_frames - 1])"
  unfolding timestamps_def by (rule map_exn_Inr) (simp add: truediv_def even_timestamp_def)

lemma timestamps_Inl:
  "int_float rnd (num_frames - 1) = 0 \<Longrightarrow> 1 \<le> num_frames \<Longrightarrow>
   timestamps rnd s u num_frames = Inl ZeroDivisionError"
  unfolding timestamps_def by (rule map_exn_Inl) (simp_all add: truediv_def)

lemma timestamps_cases:
  "timestamps rnd s u n = Inl ZeroDivisionError
   \<or> timestamps rnd s u n = Inr (map (even_timestamp rnd s u n) [0 .. n - 1])"
proof (cases "int_float rnd (n - 1) = 0")
  case True
  show ?thesis
  proof (cases "1 \<le> n")
    case True
    with \<open>int_float rnd (n - 1) = 0\<close> show ?thesis by (simp add: timestamps_Inl)
  next
    case False
    then have "[0 .. n - 1] = []" by simp
    then show ?thesis by (simp add: timestamps_def)
  qed
next
  case False
  then show ?thesis by (simp add: timestamps_Inr)
qed

lemma timestamps_D:
  "timestamps rnd s u n = Inr ts \<Longrightarrow> ts = map (even_timestamp rnd s u n) [0 .. n - 1]"
  using timestamps_cases [of rnd s u n] by auto

lemma timestamps_length: "timestamps rnd s u n = Inr ts \<Longrightarrow> length ts = nat n"
  by (drule timestamps_D) simp

lemma timestamps_error: "timestamps rnd s u n = Inl e \<Longrightarrow> e = ZeroDivisionError"
  using timestamps_cases [of rnd s u n] by auto

lemma calls_prepared [simp]: "calls (prepared mkdtemp od st) = calls st"
  by (cases od) (simp_all add: prepared_def)

lemma extract_frames_short:
  "usable_span rnd (duration m) ss se \<le> 0 \<Longrightarrow>
   extract_frames rnd run mkdtemp vp m n od ss se st =
     (Inl (ValueError ''Video too short after skipping start/end''), prepared mkdtemp od st)"
  by (cases od) (simp_all add: extract_frames_def prepared_def)

lemma extract_frames_zero_div:
  "0 < usable_span rnd (duration m) ss se \<Longrightarrow>
   timestamps rnd ss (usable_span rnd (duration m) ss se) n = Inl e \<Longrightarrow>
   extract_frames rnd run mkdtemp vp m n od ss se st = (Inl e, prepared mkdtemp od st)"
  by (cases od) (simp_all add: extract_frames_def prepared_def)

lemma extract_frames_loop:
  assumes "0 < usable_span rnd (duration m) ss se"
    and "timestamps rnd ss (usable_span rnd (duration m) ss se) n = Inr ts"
    and "extract_loop run vp (chosen_dir mkdtemp od) (enumerate 1 ts) []
           (prepared mkdtemp od st) = (r, st2)"
  shows "extract_frames rnd run mkdtemp vp m n od ss se st =
     (case r of
        Inl (CalledProcessError stderr) \<Rightarrow>
          Inl (RuntimeError (''FFmpeg failed to extract frames: '' @ stderr))
      | Inl e \<Rightarrow> Inl e
      | Inr frame_files \<Rightarrow>
          if frame_files = [] then Inl (RuntimeError ''No frames were extracted'')
          else Inr (sort frame_files), st2)"
proof (cases r)
  case (Inl e)
  with extract_loop_error assms(3) obtain stderr where "e = CalledProcessError stderr" by blast
  with Inl assms show ?thesis
    by (cases od) (simp_all add: extract_frames_def prepared_def chosen_dir_def)
next
  case (Inr ff)
  with assms show ?thesis
    by (cases od) (simp_all add: extract_frames_def prepared_def chosen_dir_def)
qed

lemma extract_frames_ValueError_iff:
  "(\<exists>msg. fst (extract_frames rnd run mkdtemp vp m n od ss se st) = Inl (ValueError msg))
     \<longleftrightarrow> usable_span rnd (duration m) ss se \<le> 0"
proof (cases "usable_span rnd (duration m) ss se \<le> 0")
  case True
  then show ?thesis by (simp add: extract_frames_short)
next
  case False
  then have pos: "0 < usable_span rnd (duration m) ss se" by simp
  have "\<not> (\<exists>msg. fst (extract_frames rnd run mkdtemp vp m n od ss se st) = Inl (ValueError msg))"
  proof (cases "timestamps rnd ss (usable_span rnd (duration m) ss se) n")
    case (Inl e)
    then have "e = ZeroDivisionError" by (rule timestamps_error)
    with Inl pos show ?thesis by (simp add: extract_frames_zero_div)
  next
    case (Inr ts)
    obtain r st2 where loop:
      "extract_loop run vp (chosen_dir mkdtemp od) (enumerate 1 ts) []
         (prepared mkdtemp od st) = (r, st2)"
      by (cases "extract_loop run vp (chosen_dir mkdtemp od) (enumerate 1 ts) []
         (prepared mkdtemp od st)")
    show ?thesis
    proof (cases r)
      case (Inl e)
      with extract_loop_error loop obtain stderr where "e = CalledProcessError stderr" by blast
      with Inl show ?thesis by (simp add: extract_frames_loop [OF pos Inr loop])
    next
      case (Inr ff)
      then show ?thesis
        by (simp add: extract_frames_loop [OF pos \<open>timestamps _ _ _ _ = Inr ts\<close> loop])
    qed
  qed
  with False show ?thesis by simp
qed

text \<open>
  Claim C4, as amended. \<open>extract_frames\<close> raises the \<open>ValueError\<close> of its validation if and
  only if the usable span as line 122 computes it, the duration minus \<open>skip_start_seconds\<close>
  minus \<open>skip_end_seconds\<close> with each subtraction rounded, is at most zero; and in that case
  no extraction call has been issued.
\<close>

theorem extract_frames_validation:
  "((\<exists>msg. fst (extract_frames rnd run mkdtemp video_path metadata num_frames output_dir
                  skip_start_seconds skip_end_seconds st) = Inl (ValueError msg))
      \<longleftrightarrow> usable_span rnd (duration metadata) skip_start_seconds skip_end_seconds \<le> 0)
   \<and> (usable_span rnd (duration metadata) skip_start_seconds skip_end_seconds \<le> 0 \<longrightarrow>
        calls (snd (extract_frames rnd run mkdtemp video_path metadata num_frames output_dir
                      skip_start_seconds skip_end_seconds st)) = calls st)"
  by (simp add: extract_frames_ValueError_iff extract_frames_short)

text \<open>\<open>(1.0 - 0.3) - 0.7\<close> in double arithmetic.\<close>

lemma span_1s: "usable_span rnd_double (duration clip_1s) float_0_3 float_0_7 = 0"
  by code_simp

theorem extract_frames_validation_witness:
  "usable_span rnd_double (duration clip_1s) float_0_3 float_0_7 \<le> 0
   \<and> (\<exists>msg. fst (extract_frames rnd_double ffmpeg_ok [] ''v.mp4'' clip_1s 5 (Some ''out'')
                    float_0_3 float_0_7 start_state) = Inl (ValueError msg))
   \<and> calls (snd (extract_frames rnd_double ffmpeg_ok [] ''v.mp4'' clip_1s 5 (Some ''out'')
                    float_0_3 float_0_7 start_state)) = calls start_state"
proof -
  have short: "usable_span rnd_double (duration clip_1s) float_0_3 float_0_7 \<le> 0"
    by (simp add: span_1s)
  show ?thesis
    using short
      extract_frames_validation [of rnd_double ffmpeg_ok "[]" "''v.mp4''" clip_1s 5 "Some ''out''"
        float_0_3 float_0_7 start_state]
    by blast
qed

text \<open>
  Claim C4 as stated fails where the rounded span and the exact one differ in sign. For
  a duration of \<open>1.0\<close> with \<open>0.3\<close> and \<open>0.7\<close> skipped, the exact difference of the three doubles
  is positive, the first subtraction rounds to the double \<open>0.7\<close>, the computed span is zero
  and the validation error is raised.
\<close>

theorem extract_frames_validation_counterexample:
  "0 < duration clip_1s - float_0_3 - float_0_7
   \<and> fst (extract_frames rnd_double ffmpeg_ok [] ''v.mp4'' clip_1s 5 (Some ''out'')
            float_0_3 float_0_7 start_state)
       = Inl (ValueError ''Video too short after skipping start/end'')"
proof -
  have "0 < duration clip_1s - float_0_3 - float_0_7"
    by (simp add: clip_1s_def float_0_3_def float_0_7_def)
  moreover have "usable_span rnd_double (duration clip_1s) float_0_3 float_0_7 \<le> 0"
    by (simp add: span_1s)
  ultimately show ?thesis by (simp add: extract_frames_short)
qed

lemma extract_loop_succeed:
  "calls_succeed run (map (frame_cmd vp od) its) (files st) \<Longrightarrow>
   \<exists>st'. extract_loop run vp od its ff st =
           (Inr (ff @ map (\<lambda>it. path_join od (frame_name (fst it))) its), st')"
proof (induction its arbitrary: ff st)
  case Nil
  then show ?case by simp
next
  case (Cons it its)
  obtain idx t where it: "it = (idx, t)" by (cases it)
  obtain status fs' where run: "run (frame_cmd vp od it) (files st) = (status, fs')"
    by (cases "run (frame_cmd vp od it) (files st)")
  from Cons.prems have cs: "fst (run (frame_cmd vp od it) (files st)) = None"
    "target (frame_cmd vp od it) \<in> snd (run (frame_cmd vp od it) (files st))"
    "calls_succeed run (map (frame_cmd vp od) its) (snd (run (frame_cmd vp od it) (files st)))"
    by simp_all
  from cs(1) run have s: "status = None" by simp
  from cs(2) run it have p: "path_join od (frame_name idx) \<in> fs'" by (simp add: frame_cmd_def)
  from cs(3) run have rest: "calls_succeed run (map (frame_cmd vp od) its) fs'" by simp
  let ?st2 = "st\<lparr>files := fs', calls := calls st @ [frame_cmd vp od it]\<rparr>"
  have "calls_succeed run (map (frame_cmd vp od) its) (files ?st2)" using rest by simp
  from Cons.IH [OF this, of "ff @ [path_join od (frame_name idx)]"]
  show ?case using it run s p by (auto simp: frame_cmd_def Let_def)
qed

lemma seek_frame_cmd: "map seek (map (frame_cmd vp od) its) = map snd its"
  by (simp add: frame_cmd_def)

lemma frame_paths_sorted:
  assumes "n \<le> 9999"
  shows "sorted_wrt (<) (map (\<lambda>i. path_join od (frame_name i)) [Suc 0 ..< Suc n])"
proof -
  have "sorted_wrt (\<lambda>i j. path_join od (frame_name i) < path_join od (frame_name j)) [Suc 0 ..< Suc n]"
  proof (rule sorted_wrt_mono_rel [OF _ sorted_wrt_upt])
    fix i j assume "i \<in> set [Suc 0 ..< Suc n]" "j \<in> set [Suc 0 ..< Suc n]" "i < j"
    with assms show "path_join od (frame_name i) < path_join od (frame_name j)"
      by (intro frame_path_mono) auto
  qed
  then show ?thesis by (simp only: sorted_wrt_map)
qed

lemma enumerate_paths:
  "map (\<lambda>it. path_join od (frame_name (fst it))) (enumerate (Suc 0) ts)
     = map (\<lambda>i. path_join od (frame_name i)) [Suc 0 ..< Suc (length ts)]"
proof -
  have "map (\<lambda>it. path_join od (frame_name (fst it))) (enumerate (Suc 0) ts)
          = map (\<lambda>i. path_join od (frame_name i)) (map fst (enumerate (Suc 0) ts))"
    by (simp only: map_map comp_def)
  also have "map fst (enumerate (Suc 0) ts) = [Suc 0 ..< Suc 0 + length ts]"
    by (rule map_fst_enumerate)
  also have "Suc 0 + length ts = Suc (length ts)" by simp
  finally show ?thesis .
qed

lemma target_frame_cmd:
  "map target (map (frame_cmd vp od) (enumerate (Suc 0) ts))
     = map (\<lambda>i. path_join od (frame_name i)) [Suc 0 ..< Suc (length ts)]"
proof -
  have "map target (map (frame_cmd vp od) (enumerate (Suc 0) ts))
          = map (\<lambda>it. path_join od (frame_name (fst it))) (enumerate (Suc 0) ts)"
    by (simp only: map_map comp_def frame_cmd_def ffmpeg_call.simps)
  then show ?thesis by (simp only: enumerate_paths)
qed

text \<open>What a successful call returned, in terms of the loop.\<close>

lemma extract_frames_Inr_D:
  assumes "extract_frames rnd run mkdtemp vp m n od ss se st = (Inr paths, st')"
  shows "\<exists>fs. 0 < usable_span rnd (duration m) ss se
           \<and> calls st' = calls st @ planned_calls rnd vp (chosen_dir mkdtemp od) ss
                                     (usable_span rnd (duration m) ss se) n
           \<and> subseq fs (map (\<lambda>i. path_join (chosen_dir mkdtemp od) (frame_name i)) [Suc 0 ..< Suc (nat n)])
           \<and> fs \<noteq> [] \<and> paths = sort fs"
proof -
  let ?u = "usable_span rnd (duration m) ss se"
  have pos: "0 < ?u"
  proof (rule ccontr)
    assume "\<not> 0 < ?u"
    then have "?u \<le> 0" by simp
    from extract_frames_short [OF this, of run mkdtemp vp n od st] assms show False by simp
  qed
  obtain ts where ts: "timestamps rnd ss ?u n = Inr ts"
  proof (cases "timestamps rnd ss ?u n")
    case (Inl e)
    from extract_frames_zero_div [OF pos Inl, of run mkdtemp vp od st] assms show ?thesis by simp
  next
    case (Inr ts)
    then show ?thesis using that by blast
  qed
  have tsd: "ts = map (even_timestamp rnd ss ?u n) [0 .. n - 1]" using ts by (rule timestamps_D)
  have len: "length ts = nat n" using ts by (rule timestamps_length)
  obtain r st2 where loop:
    "extract_loop run vp (chosen_dir mkdtemp od) (enumerate 1 ts) []
       (prepared mkdtemp od st) = (r, st2)"
    by (cases "extract_loop run vp (chosen_dir mkdtemp od) (enumerate 1 ts) []
       (prepared mkdtemp od st)")
  from extract_frames_loop [OF pos ts loop] assms
  obtain ff where r: "r = Inr ff" and ff: "ff \<noteq> []" "paths = sort ff" and st2: "st2 = st'"
  proof (cases r)
    case (Inl e)
    with extract_loop_error loop obtain stderr where "e = CalledProcessError stderr" by blast
    with Inl extract_frames_loop [OF pos ts loop] assms show ?thesis by simp
  next
    case (Inr ff)
    with extract_frames_loop [OF pos ts loop] assms that show ?thesis
      by (cases "ff = []") simp_all
  qed
  from extract_loop_Inr [OF loop [unfolded r st2]] obtain fs where
    c: "calls st' = calls (prepared mkdtemp od st)
        @ map (frame_cmd vp (chosen_dir mkdtemp od)) (enumerate 1 ts)"
    and f: "ff = [] @ fs"
    and sub: "subseq fs (map (\<lambda>it. path_join (chosen_dir mkdtemp od) (frame_name (fst it)))
                 (enumerate 1 ts))"
    by blast
  have c': "calls st' = calls st @ planned_calls rnd vp (chosen_dir mkdtemp od) ss ?u n"
    using c by (simp add: planned_calls_def tsd)
  have "subseq fs (map (\<lambda>i. path_join (chosen_dir mkdtemp od) (frame_name i)) [Suc 0 ..< Suc (nat n)])"
    using sub unfolding One_nat_def enumerate_paths len .
  with pos c' f ff show ?thesis by auto
qed

lemma seek_planned:
  "map seek (planned_calls rnd vp dir s u n) = map (even_timestamp rnd s u n) [0 .. n - 1]"
  unfolding planned_calls_def seek_frame_cmd by (rule map_snd_enumerate)

lemma target_planned:
  "map target (planned_calls rnd vp dir s u n)
     = map (\<lambda>i. path_join dir (frame_name i)) [Suc 0 ..< Suc (nat n)]"
proof -
  have "length (map (even_timestamp rnd s u n) [0 .. n - 1]) = nat n" by simp
  then show ?thesis
    unfolding planned_calls_def One_nat_def target_frame_cmd by (simp only:)
qed

lemma even_timestamp_first:
  "rounded rnd s = s \<Longrightarrow> even_timestamp rnd s u n 0 = s"
  by (simp add: even_timestamp_def fadd_def fmul_def)

lemma subseq_length: "subseq xs ys \<Longrightarrow> length xs \<le> length ys"
  by (rule list_emb_length)

lemma extract_frames_succeed:
  assumes pos: "0 < usable_span rnd (duration m) ss se"
    and nz: "int_float rnd (n - 1) \<noteq> 0" and n: "1 \<le> n"
    and ok: "calls_succeed run
               (planned_calls rnd vp (chosen_dir mkdtemp od) ss (usable_span rnd (duration m) ss se) n)
               (files (prepared mkdtemp od st))"
  shows "\<exists>st'. extract_frames rnd run mkdtemp vp m n od ss se st =
            (Inr (sort (map (\<lambda>i. path_join (chosen_dir mkdtemp od) (frame_name i))
                          [Suc 0 ..< Suc (nat n)])), st')"
proof -
  let ?od = "chosen_dir mkdtemp od"
  let ?u = "usable_span rnd (duration m) ss se"
  define ts where "ts = map (even_timestamp rnd ss ?u n) [0 .. n - 1]"
  have tse: "timestamps rnd ss ?u n = Inr ts"
    unfolding ts_def using nz by (rule timestamps_Inr)
  have len: "length ts = nat n" unfolding ts_def by simp
  have "calls_succeed run (map (frame_cmd vp ?od) (enumerate 1 ts)) (files (prepared mkdtemp od st))"
    using ok unfolding planned_calls_def ts_def .
  from extract_loop_succeed [OF this, of "[]"]
  obtain st2 where loop:
    "extract_loop run vp ?od (enumerate 1 ts) [] (prepared mkdtemp od st)
       = (Inr ([] @ map (\<lambda>it. path_join ?od (frame_name (fst it))) (enumerate 1 ts)), st2)"
    by blast
  have P: "map (\<lambda>it. path_join ?od (frame_name (fst it))) (enumerate 1 ts)
             = map (\<lambda>i. path_join ?od (frame_name i)) [Suc 0 ..< Suc (nat n)]"
    unfolding One_nat_def enumerate_paths len ..
  have ne: "map (\<lambda>i. path_join ?od (frame_name i)) [Suc 0 ..< Suc (nat n)] \<noteq> []"
    using n by (simp del: upt_Suc)
  from extract_frames_loop [OF pos tse loop] ne
  show ?thesis unfolding P append_Nil by (auto simp del: upt_Suc)
qed

text \<open>
  Claim C3, as amended. For a count of at least two and a usable span that is computed
  positive: whenever \<open>extract_frames\<close> returns, it has issued one extraction call per
  timestamp \<open>skip_start + i * usable / (count - 1)\<close>, every operation rounded, for \<open>i\<close>
  from \<open>0\<close> to \<open>count - 1\<close>, the first at \<open>skip_start\<close>, and it returns at most \<open>count\<close>
  paths; it returns, with exactly \<open>count\<close> paths, when each of these calls exits with
  status 0 and leaves its output file.
\<close>

theorem extract_frames_even:
  assumes "2 \<le> num_frames"
    and "0 < usable_span rnd (duration metadata) skip_start_seconds skip_end_seconds"
    and "rounded rnd skip_start_seconds = skip_start_seconds"
  shows
    "(\<forall>paths st'.
        extract_frames rnd run mkdtemp video_path metadata num_frames output_dir
          skip_start_seconds skip_end_seconds st = (Inr paths, st') \<longrightarrow>
        map seek (drop (length (calls st)) (calls st'))
          = map (even_timestamp rnd skip_start_seconds
                   (usable_span rnd (duration metadata) skip_start_seconds skip_end_seconds)
                   num_frames)
              [0 .. num_frames - 1]
        \<and> seek (hd (drop (length (calls st)) (calls st'))) = skip_start_seconds
        \<and> length paths \<le> nat num_frames)
     \<and> (int_float rnd (num_frames - 1) \<noteq> 0
        \<and> calls_succeed run
             (planned_calls rnd video_path (chosen_dir mkdtemp output_dir) skip_start_seconds
                (usable_span rnd (duration metadata) skip_start_seconds skip_end_seconds)
                num_frames)
             (files (prepared mkdtemp output_dir st)) \<longrightarrow>
        (\<exists>paths st'.
           extract_frames rnd run mkdtemp video_path metadata num_frames output_dir
             skip_start_seconds skip_end_seconds st = (Inr paths, st')
           \<and> length paths = nat num_frames))"
proof (intro conjI allI impI)
  fix paths :: "string list" and st' :: sys_state
  let ?u = "usable_span rnd (duration metadata) skip_start_seconds skip_end_seconds"
  let ?od = "chosen_dir mkdtemp output_dir"
  let ?issued = "drop (length (calls st)) (calls st')"
  let ?ts = "map (even_timestamp rnd skip_start_seconds ?u num_frames) [0 .. num_frames - 1]"
  assume r: "extract_frames rnd run mkdtemp video_path metadata num_frames output_dir
          skip_start_seconds skip_end_seconds st = (Inr paths, st')"
  from extract_frames_Inr_D [OF r] obtain fs where
    c: "calls st' = calls st @ planned_calls rnd video_path ?od skip_start_seconds ?u num_frames"
    and sub: "subseq fs (map (\<lambda>i. path_join ?od (frame_name i)) [Suc 0 ..< Suc (nat num_frames)])"
    and p: "paths = sort fs"
    by blast
  have issued: "?issued = planned_calls rnd video_path ?od skip_start_seconds ?u num_frames"
    using c by simp
  show seeks: "map seek ?issued = ?ts" unfolding issued by (rule seek_planned)
  have ne: "?issued \<noteq> []" using seeks assms(1) by auto
  have "seek (hd ?issued) = hd (map seek ?issued)" using ne by (simp add: hd_map)
  also have "\<dots> = hd ?ts" by (simp only: seeks)
  also have "\<dots> = even_timestamp rnd skip_start_seconds ?u num_frames 0"
    using assms(1) by (simp add: upto_rec1 [of 0 "num_frames - 1"])
  also have "\<dots> = skip_start_seconds" using assms(3) by (rule even_timestamp_first)
  finally show "seek (hd ?issued) = skip_start_seconds" .
  have "length fs \<le> length (map (\<lambda>i. path_join ?od (frame_name i)) [Suc 0 ..< Suc (nat num_frames)])"
    using sub by (rule subseq_length)
  then show "length paths \<le> nat num_frames" by (simp add: p del: upt_Suc)
next
  let ?u = "usable_span rnd (duration metadata) skip_start_seconds skip_end_seconds"
  assume a: "int_float rnd (num_frames - 1) \<noteq> 0
        \<and> calls_succeed run
             (planned_calls rnd video_path (chosen_dir mkdtemp output_dir) skip_start_seconds ?u
                num_frames)
             (files (prepared mkdtemp output_dir st))"
  have n1: "1 \<le> num_frames" using assms(1) by simp
  from extract_frames_succeed [OF assms(2) conjunct1 [OF a] n1 conjunct2 [OF a]]
  obtain st' where "extract_frames rnd run mkdtemp video_path metadata num_frames output_dir
          skip_start_seconds skip_end_seconds st =
            (Inr (sort (map (\<lambda>i. path_join (chosen_dir mkdtemp output_dir) (frame_name i))
                          [Suc 0 ..< Suc (nat num_frames)])), st')"
    by blast
  moreover have "length (sort (map (\<lambda>i. path_join (chosen_dir mkdtemp output_dir) (frame_name i))
                          [Suc 0 ..< Suc (nat num_frames)])) = nat num_frames"
    by (simp del: upt_Suc)
  ultimately show "\<exists>paths st'.
           extract_frames rnd run mkdtemp video_path metadata num_frames output_dir
             skip_start_seconds skip_end_seconds st = (Inr paths, st')
           \<and> length paths = nat num_frames"
    by blast
qed

lemma ffmpeg_ok_succeeds: "calls_succeed ffmpeg_ok cmds fs"
  by (induction cmds arbitrary: fs) (simp_all add: ffmpeg_ok_def)

lemma span_10s: "usable_span rnd_double (duration clip_10s) 2 2 = 6"
  by code_simp

lemma rounded_two: "rounded rnd_double 2 = 2"
  by code_simp

lemma int_float_two: "int_float rnd_double (3 - 1) \<noteq> 0"
  by code_simp

theorem extract_frames_even_witness:
  "(2::int) \<le> 3
   \<and> 0 < usable_span rnd_double (duration clip_10s) 2 2
   \<and> rounded rnd_double 2 = 2
   \<and> int_float rnd_double (3 - 1) \<noteq> 0
   \<and> calls_succeed ffmpeg_ok
        (planned_calls rnd_double ''v.mp4'' (chosen_dir [] (Some ''out'')) 2
           (usable_span rnd_double (duration clip_10s) 2 2) 3)
        (files (prepared [] (Some ''out'') start_state))
   \<and> (\<exists>paths st'.
        extract_frames rnd_double ffmpeg_ok [] ''v.mp4'' clip_10s 3 (Some ''out'') 2 2 start_state
          = (Inr paths, st')
        \<and> length paths = nat 3
        \<and> map seek (drop (length (calls start_state)) (calls st'))
            = map (even_timestamp rnd_double 2 (usable_span rnd_double (duration clip_10s) 2 2) 3)
                [0 .. 3 - 1]
        \<and> seek (hd (drop (length (calls start_state)) (calls st'))) = 2)"
proof -
  have h1: "(2::int) \<le> 3" by simp
  have h2: "0 < usable_span rnd_double (duration clip_10s) 2 2" by (simp add: span_10s)
  note th = extract_frames_even [OF h1 h2 rounded_two, of ffmpeg_ok "[]" "''v.mp4''" "Some ''out''" start_state]
  from th int_float_two ffmpeg_ok_succeeds obtain paths st' where
    r: "extract_frames rnd_double ffmpeg_ok [] ''v.mp4'' clip_10s 3 (Some ''out'') 2 2 start_state
          = (Inr paths, st')" and l: "length paths = nat 3"
    by blast
  from th r have "map seek (drop (length (calls start_state)) (calls st'))
            = map (even_timestamp rnd_double 2 (usable_span rnd_double (duration clip_10s) 2 2) 3)
                [0 .. 3 - 1]
        \<and> seek (hd (drop (length (calls start_state)) (calls st'))) = 2"
    by blast
  with r l h1 h2 rounded_two int_float_two ffmpeg_ok_succeeds show ?thesis by blast
qed

lemma short_stream_paths:
  "fst (extract_frames rnd_double ffmpeg_short [] ''v.mp4'' clip_10s 3 (Some ''out'') 2 2
          start_state)
     = Inr [''out/frame_0001.jpg'', ''out/frame_0002.jpg'']"
  by code_simp

lemma span_61_7: "usable_span rnd_double (duration clip_61_7) 2 2 = 4060276539051213 / 70368744177664"
  by code_simp

lemma last_61_7:
  "even_timestamp rnd_double 2 (4060276539051213 / 70368744177664) 10 9
     = 8402028054813083 / 140737488355328"
  by code_simp

lemma int_float_nine: "int_float rnd_double (10 - 1) \<noteq> 0"
  by code_simp

lemma last_seek:
  assumes "extract_frames rnd run mkdtemp vp m n od ss se st = (Inr paths, st')" and "1 \<le> n"
  shows "seek (last (calls st')) = even_timestamp rnd ss (usable_span rnd (duration m) ss se) n (n - 1)"
proof -
  let ?u = "usable_span rnd (duration m) ss se"
  let ?pl = "planned_calls rnd vp (chosen_dir mkdtemp od) ss ?u n"
  from extract_frames_Inr_D [OF assms(1)]
  have c: "calls st' = calls st @ ?pl" by blast
  have s: "map seek ?pl = map (even_timestamp rnd ss ?u n) [0 .. n - 1]" by (rule seek_planned)
  have ne: "?pl \<noteq> []" using s assms(2) by auto
  have "seek (last (calls st')) = seek (last ?pl)" using c ne by simp
  also have "\<dots> = last (map seek ?pl)" using ne by (simp add: last_map)
  also have "\<dots> = even_timestamp rnd ss ?u n (n - 1)"
    unfolding s using assms(2) by (simp add: upto_rec2 [of 0 "n - 1"])
  finally show ?thesis .
qed

text \<open>
  Claim C3 as stated fails twice. A call that exits with status 0 and writes no file adds
  no path: three frames are asked for and two paths come back. And in double arithmetic
  the last timestamp need not be the duration minus \<open>skip_end\<close>: for ten frames of a clip
  of \<open>61.7\<close> seconds with two seconds skipped at each end, the run returns and its last call
  seeks to \<open>59.70000000000001\<close>, while \<open>61.7 - 2.0\<close> is \<open>59.7\<close>.
\<close>

theorem extract_frames_count_counterexample:
  "fst (extract_frames rnd_double ffmpeg_short [] ''v.mp4'' clip_10s 3 (Some ''out'') 2 2
          start_state)
     = Inr [''out/frame_0001.jpg'', ''out/frame_0002.jpg'']
   \<and> (\<exists>paths st'.
        extract_frames rnd_double ffmpeg_ok [] ''v.mp4'' clip_61_7 10 (Some ''out'') 2 2
          start_state = (Inr paths, st')
        \<and> seek (last (calls st')) = 8402028054813083 / 140737488355328)
   \<and> duration clip_61_7 - 2 = 8402028054813082 / 140737488355328"
proof -
  have pos: "0 < usable_span rnd_double (duration clip_61_7) 2 2" by (simp add: span_61_7)
  from extract_frames_succeed [OF pos int_float_nine _ ffmpeg_ok_succeeds, of "[]" "''v.mp4''" "Some ''out''" start_state]
  obtain paths st' where
    r: "extract_frames rnd_double ffmpeg_ok [] ''v.mp4'' clip_61_7 10 (Some ''out'') 2 2
          start_state = (Inr paths, st')"
    by auto
  from last_seek [OF r] have "seek (last (calls st')) = 8402028054813083 / 140737488355328"
    by (simp add: span_61_7 last_61_7)
  moreover have "duration clip_61_7 - 2 = 8402028054813082 / 140737488355328"
    by (simp add: clip_61_7_def float_61_7_def)
  ultimately show ?thesis using short_stream_paths r by blast
qed

text \<open>
  Claim C7, as amended. For a frame count of at most 9999, whenever \<open>extract_frames\<close>
  returns, sorting the returned paths lexically yields them in the order in which their
  frames were extracted.
\<close>

theorem extract_frames_sorted_chronological:
  assumes "num_frames \<le> 9999"
    and "extract_frames rnd run mkdtemp video_path metadata num_frames output_dir
           skip_start_seconds skip_end_seconds st = (Inr paths, st')"
  shows "sort paths = chronological (drop (length (calls st)) (calls st')) paths"
proof -
  let ?od = "chosen_dir mkdtemp output_dir"
  let ?u = "usable_span rnd (duration metadata) skip_start_seconds skip_end_seconds"
  let ?P = "map (\<lambda>i. path_join ?od (frame_name i)) [Suc 0 ..< Suc (nat num_frames)]"
  from extract_frames_Inr_D [OF assms(2)] obtain fs where
    c: "calls st' = calls st @ planned_calls rnd video_path ?od skip_start_seconds ?u num_frames"
    and sub: "subseq fs ?P"
    and p: "paths = sort fs"
    by blast
  have "nat num_frames \<le> 9999" using assms(1) by simp
  then have sP: "sorted_wrt (<) ?P" by (rule frame_paths_sorted)
  then have dP: "distinct ?P" by (simp only: strict_sorted_iff)
  have "sorted_wrt (<) fs" using sub sP by (rule subseq_sorted_wrt)
  then have "sorted fs" by (rule strict_sorted_imp_sorted)
  then have sfs: "sort fs = fs" by (rule sorted_sort_id)
  have "map target (drop (length (calls st)) (calls st')) = ?P"
    using c by (simp only: append_eq_conv_conj drop_append diff_self_eq_0 drop_0 drop_all
        order_refl append_Nil target_planned)
  then have "chronological (drop (length (calls st)) (calls st')) paths
               = filter (\<lambda>x. x \<in> set fs) ?P"
    by (simp only: chronological_def p sfs)
  also have "\<dots> = fs" using sub dP by (rule subseq_filter_mem)
  finally show ?thesis using p sfs by simp
qed

theorem extract_frames_sorted_chronological_witness:
  "(3::int) \<le> 9999
   \<and> (\<exists>paths st'.
         extract_frames rnd_double ffmpeg_ok [] ''v.mp4'' clip_10s 3 (Some ''out'') 2 2 start_state
           = (Inr paths, st')
         \<and> sort paths = chronological (drop (length (calls start_state)) (calls st')) paths)"
proof -
  have pos: "0 < usable_span rnd_double (duration clip_10s) 2 2" by (simp add: span_10s)
  have le: "(3::int) \<le> 9999" by simp
  from extract_frames_succeed [OF pos int_float_two _ ffmpeg_ok_succeeds, of "[]" "''v.mp4''" "Some ''out''" start_state]
  obtain paths st' where
    r: "extract_frames rnd_double ffmpeg_ok [] ''v.mp4'' clip_10s 3 (Some ''out'') 2 2 start_state
          = (Inr paths, st')"
    by auto
  from extract_frames_sorted_chronological [OF le r] r le show ?thesis by blast
qed

lemma format_10000: "format_04d 10000 = [digit_char 1, digit_char 0, digit_char 0, digit_char 0, digit_char 0]"
  by (simp add: format_04d_def str_nat.simps)

lemma format_9999: "format_04d 9999 = [digit_char 9, digit_char 9, digit_char 9, digit_char 9]"
  by (simp add: format_04d_def str_nat.simps)

lemma frame_10000_before_9999:
  "path_join od (frame_name 10000) < path_join od (frame_name 9999)"
  unfolding frame_path_eq less_prefix_cancel
  by (simp add: format_10000 format_9999 digit_char_less)

lemma frame_paths_unsorted:
  assumes "10000 \<le> k"
  shows "\<not> sorted (map (\<lambda>i. path_join od (frame_name i)) [Suc 0 ..< Suc k])"
proof
  let ?P = "map (\<lambda>i. path_join od (frame_name i)) [Suc 0 ..< Suc k]"
  assume "sorted ?P"
  moreover have "(9998::nat) \<le> 9999" by simp
  moreover have l: "9999 < length ?P" using assms by simp
  ultimately have "?P ! 9998 \<le> ?P ! 9999" by (rule sorted_nth_mono)
  moreover have "?P ! 9998 = path_join od (frame_name 9999)"
    using assms by (simp del: upt_Suc)
  moreover have "?P ! 9999 = path_join od (frame_name 10000)"
    using assms by (simp del: upt_Suc)
  ultimately show False using frame_10000_before_9999 [of od] by simp
qed

lemma sorted_not_chronological:
  assumes pos: "0 < usable_span rnd (duration m) ss se"
    and nz: "int_float rnd (n - 1) \<noteq> 0" and big: "10000 \<le> n"
    and ok: "calls_succeed run
               (planned_calls rnd vp (chosen_dir mkdtemp od) ss (usable_span rnd (duration m) ss se) n)
               (files (prepared mkdtemp od st))"
  shows "\<exists>paths st'. extract_frames rnd run mkdtemp vp m n od ss se st = (Inr paths, st')
           \<and> sort paths \<noteq> chronological (drop (length (calls st)) (calls st')) paths"
proof -
  let ?od = "chosen_dir mkdtemp od"
  let ?u = "usable_span rnd (duration m) ss se"
  define P where "P = map (\<lambda>i. path_join ?od (frame_name i)) [Suc 0 ..< Suc (nat n)]"
  have n1: "1 \<le> n" using big by simp
  from extract_frames_succeed [OF pos nz n1 ok]
  obtain st' where r: "extract_frames rnd run mkdtemp vp m n od ss se st = (Inr (sort P), st')"
    unfolding P_def by blast
  from extract_frames_Inr_D [OF r]
  have c: "calls st' = calls st @ planned_calls rnd vp ?od ss ?u n" by blast
  have "map target (drop (length (calls st)) (calls st')) = P"
    using c unfolding P_def
    by (simp only: append_eq_conv_conj drop_append diff_self_eq_0 drop_0 drop_all
        order_refl append_Nil target_planned)
  then have chron: "chronological (drop (length (calls st)) (calls st')) (sort P) = P"
    unfolding chronological_def by simp
  have "10000 \<le> nat n" using big by simp
  then have "\<not> sorted P" unfolding P_def by (rule frame_paths_unsorted)
  then have "sort P \<noteq> P" by (metis sorted_sort)
  moreover have "sort (sort P) = sort P" by (simp add: sorted_sort_id)
  ultimately have "sort (sort P) \<noteq> chronological (drop (length (calls st)) (calls st')) (sort P)"
    unfolding chron by simp
  with r show ?thesis by blast
qed

lemma int_float_9999: "int_float rnd_double (10000 - 1) \<noteq> 0"
  by code_simp

text \<open>
  Claim C7 as stated fails beyond four digits: frame 10000 is named \<open>frame_10000.jpg\<close>,
  which sorts before \<open>frame_9999.jpg\<close>.
\<close>

theorem extract_frames_10000_counterexample:
  "\<exists>paths st'.
     extract_frames rnd_double ffmpeg_ok [] ''v.mp4'' clip_10s 10000 (Some ''out'') 2 2
       start_state = (Inr paths, st')
     \<and> sort paths \<noteq> chronological (drop (length (calls start_state)) (calls st')) paths"
proof (rule sorted_not_chronological [OF _ int_float_9999 _ ffmpeg_ok_succeeds])
  show "0 < usable_span rnd_double (duration clip_10s) 2 2" by (simp add: span_10s)
  show "(10000::int) \<le> 10000" by simp
qed

lemma portrait_metadata:
  "video_processor_init rnd_double json_loads dec_float dec_int ffprobe_portrait {''v.mp4''} ''v.mp4''
     = Inr clip_portrait"
  by code_simp

lemma extract_frames_one:
  assumes "0 < usable_span rnd (duration m) ss se"
  shows "extract_frames rnd run mkdtemp vp m 1 od ss se st
           = (Inl ZeroDivisionError, prepared mkdtemp od st)"
  using assms by (rule extract_frames_zero_div) (rule timestamps_one)

text \<open>
  Claim C10. With a usable span that is computed positive, \<open>extract_frames\<close> called with
  \<open>num_frames = 1\<close> raises \<open>ZeroDivisionError\<close> before any extraction call: neither the
  \<open>ValueError\<close> of the validation nor the \<open>RuntimeError\<close> that wraps a failing tool. The
  command \<open>generate\<close> with one frame reaches it whenever the span left by the two seconds
  skipped at each end by default is positive, and ends in its handler for unexpected
  exceptions.
\<close>

theorem single_frame_zero_division:
  "(0 < usable_span rnd (duration metadata) skip_start_seconds skip_end_seconds \<longrightarrow>
      fst (extract_frames rnd run mkdtemp video_path metadata 1 output_dir
             skip_start_seconds skip_end_seconds st) = Inl ZeroDivisionError
      \<and> calls (snd (extract_frames rnd run mkdtemp video_path metadata 1 output_dir
                      skip_start_seconds skip_end_seconds st)) = calls st)
   \<and> (map_of res_map resolution = Some base
      \<and> video_processor_init (run_round env) (run_loads env) (run_str_float env)
           (run_str_int env) (run_ffprobe env) (files st) video_path = Inr metadata
      \<and> 0 < usable_span (run_round env) (duration metadata) 2 2 \<longrightarrow>
      outcome (generate env video_path prompt output style_v resolution 1 st)
        = Unexpected ZeroDivisionError)"
proof (intro conjI impI)
  assume "0 < usable_span rnd (duration metadata) skip_start_seconds skip_end_seconds"
  from extract_frames_one [OF this]
  show "fst (extract_frames rnd run mkdtemp video_path metadata 1 output_dir
             skip_start_seconds skip_end_seconds st) = Inl ZeroDivisionError"
    and "calls (snd (extract_frames rnd run mkdtemp video_path metadata 1 output_dir
                      skip_start_seconds skip_end_seconds st)) = calls st"
    by simp_all
next
  assume a: "map_of res_map resolution = Some base
      \<and> video_processor_init (run_round env) (run_loads env) (run_str_float env)
           (run_str_int env) (run_ffprobe env) (files st) video_path = Inr metadata
      \<and> 0 < usable_span (run_round env) (duration metadata) 2 2"
  then have pos: "0 < usable_span (run_round env) (duration metadata) 2 2" by simp
  show "outcome (generate env video_path prompt output style_v resolution 1 st)
        = Unexpected ZeroDivisionError"
    using a by (simp add: generate_def Let_def extract_frames_one [OF pos])
qed

lemma span_portrait: "usable_span rnd_double (duration clip_portrait) 2 2 = 11"
  by code_simp

theorem single_frame_zero_division_witness:
  "0 < usable_span rnd_double (duration clip_portrait) 2 2
   \<and> fst (extract_frames rnd_double ffmpeg_ok [] ''v.mp4'' clip_portrait 1 (Some ''out'') 2 2
            start_state)
       = Inl ZeroDivisionError
   \<and> map_of res_map ''720p'' = Some (1280, 720)
   \<and> video_processor_init (run_round portrait_env) (run_loads portrait_env)
        (run_str_float portrait_env) (run_str_int portrait_env) (run_ffprobe portrait_env)
        (files start_state) ''v.mp4''
       = Inr clip_portrait
   \<and> 0 < usable_span (run_round portrait_env) (duration clip_portrait) 2 2
   \<and> outcome (generate portrait_env ''v.mp4'' ''demo'' None ''youtube'' ''720p'' 1 start_state)
       = Unexpected ZeroDivisionError"
proof -
  have p1: "0 < usable_span rnd_double (duration clip_portrait) 2 2" by (simp add: span_portrait)
  have p2: "map_of res_map ''720p'' = Some (1280, 720)" by (simp add: res_map_def)
  have p3: "video_processor_init (run_round portrait_env) (run_loads portrait_env)
        (run_str_float portrait_env) (run_str_int portrait_env) (run_ffprobe portrait_env)
        (files start_state) ''v.mp4''
       = Inr clip_portrait"
    using portrait_metadata by (simp add: portrait_env_def start_state_def)
  have p4: "0 < usable_span (run_round portrait_env) (duration clip_portrait) 2 2"
    using p1 by (simp add: portrait_env_def)
  from single_frame_zero_division
         [of rnd_double clip_portrait 2 2 ffmpeg_ok "[]" "''v.mp4''" "Some ''out''" start_state
             "''720p''" "(1280, 720)" portrait_env "''demo''" None "''youtube''"]
  show ?thesis using p1 p2 p3 p4 by blast
qed




lemma re_search_braces_Some:
  assumes "re_search_braces text = Some m"
  shows "has_braces text"
proof -
  let ?fo = "dropWhile (\<lambda>c. c \<noteq> CHR ''{'') text"
  from assms have fo: "?fo \<noteq> []" by (auto simp: re_search_braces_def Let_def split: if_splits)
  then have "\<not> hd ?fo \<noteq> CHR ''{''" by (rule hd_dropWhile)
  then have h: "hd ?fo = CHR ''{''" by simp
  from assms fo have "rev (dropWhile (\<lambda>c. c \<noteq> CHR ''}'') (rev (tl ?fo))) \<noteq> []"
    by (auto simp: re_search_braces_def Let_def split: if_splits)
  then have "CHR ''}'' \<in> set (tl ?fo)" by (auto simp: dropWhile_eq_Nil_conv)
  then obtain b c where bc: "tl ?fo = b @ CHR ''}'' # c" by (auto dest: split_list)
  have "text = takeWhile (\<lambda>c. c \<noteq> CHR ''{'') text @ ?fo" by simp
  also have "?fo = CHR ''{'' # tl ?fo" using fo h by (cases ?fo) auto
  finally have "text = takeWhile (\<lambda>c. c \<noteq> CHR ''{'') text @ CHR ''{'' # b @ CHR ''}'' # c"
    by (simp only: bc)
  then show ?thesis unfolding has_braces_def by blast
qed

lemma re_search_braces_None:
  assumes "re_search_braces text = None"
  shows "\<not> has_braces text"
proof
  assume "has_braces text"
  then obtain a b c where t: "text = a @ CHR ''{'' # b @ CHR ''}'' # c"
    unfolding has_braces_def by blast
  let ?P = "\<lambda>c. c \<noteq> CHR ''{''"
  let ?fo = "dropWhile ?P text"
  have "\<exists>d. ?fo = d @ CHR ''{'' # b @ CHR ''}'' # c"
  proof (cases "\<forall>x\<in>set a. ?P x")
    case True
    then have "?fo = CHR ''{'' # b @ CHR ''}'' # c" unfolding t by (simp add: dropWhile_append)
    then show ?thesis by (intro exI [of _ "[]"]) simp
  next
    case False
    then have "?fo = dropWhile ?P a @ CHR ''{'' # b @ CHR ''}'' # c"
      unfolding t by (simp add: dropWhile_append)
    then show ?thesis by blast
  qed
  then obtain d where d: "?fo = d @ CHR ''{'' # b @ CHR ''}'' # c" by blast
  then have fo: "?fo \<noteq> []" by simp
  have "CHR ''}'' \<in> set (tl ?fo)" unfolding d by (cases d) auto
  then have up: "rev (dropWhile (\<lambda>c. c \<noteq> CHR ''}'') (rev (tl ?fo))) \<noteq> []"
    by (auto simp: dropWhile_eq_Nil_conv)
  from assms show False
    unfolding re_search_braces_def Let_def if_not_P [OF fo] if_not_P [OF up] by simp
qed

lemma re_search_braces_None_iff: "re_search_braces text = None \<longleftrightarrow> \<not> has_braces text"
  using re_search_braces_None re_search_braces_Some by (cases "re_search_braces text") auto

lemma find_missing_None: "find (\<lambda>p. p \<notin> fs) ps = None \<longleftrightarrow> set ps \<subseteq> fs"
  by (auto simp: find_None_iff)

text \<open>
  Claim C6. For a non-empty list of frames that exist, when the model answers with a
  text that holds no substring from an opening to a closing brace, \<open>analyze_frames\<close> does
  not raise: it returns index \<open>0\<close> with the first frame, the response text as the
  reasoning and an empty list of scores.
\<close>

theorem analyze_frames_fallback:
  assumes "frame_paths \<noteq> []"
    and "set frame_paths \<subseteq> fs"
    and "response = Inr (response_text # others)"
    and "\<not> has_braces response_text"
  shows "analyze_frames loads fs response frame_paths =
           Inr \<lparr>best_frame_index = JInt 0, best_frame_path = hd frame_paths,
                reasoning = JStr response_text, scores = JArr [],
                raw_response = response_text\<rparr>"
proof -
  have none: "re_search_braces response_text = None"
    using assms(4) by (simp add: re_search_braces_None_iff)
  have missing: "find (\<lambda>p. p \<notin> fs) frame_paths = None"
    using assms(2) by (simp add: find_missing_None)
  have first: "getitem frame_paths (JInt 0) = Inr (hd frame_paths)"
    using assms(1) by (cases frame_paths) (simp_all add: getitem_def as_index_def list_index_def)
  have "analyze_response loads response frame_paths =
           Inr \<lparr>best_frame_index = JInt 0, best_frame_path = hd frame_paths,
                reasoning = JStr response_text, scores = JArr [],
                raw_response = response_text\<rparr>"
    unfolding analyze_response_def assms(3)
    by (simp add: try_bind_def list_index_def extract_analysis_def none dict_get_def first)
  then show ?thesis using assms(1) missing by (simp add: analyze_frames_def)
qed

lemma plain_text_search: "re_search_braces ''Frame 2 looks best.'' = None"
  by (simp add: re_search_braces_def)

theorem analyze_frames_fallback_witness:
  "[''a.jpg'', ''b.jpg''] \<noteq> []
   \<and> set [''a.jpg'', ''b.jpg''] \<subseteq> {''a.jpg'', ''b.jpg''}
   \<and> \<not> has_braces ''Frame 2 looks best.''
   \<and> analyze_frames json_loads {''a.jpg'', ''b.jpg''} (Inr [''Frame 2 looks best.''])
         [''a.jpg'', ''b.jpg'']
       = Inr \<lparr>best_frame_index = JInt 0, best_frame_path = ''a.jpg'',
              reasoning = JStr ''Frame 2 looks best.'', scores = JArr [],
              raw_response = ''Frame 2 looks best.''\<rparr>"
proof -
  have h1: "[''a.jpg'', ''b.jpg''] \<noteq> []" by simp
  have h2: "set [''a.jpg'', ''b.jpg''] \<subseteq> {''a.jpg'', ''b.jpg''}" by simp
  have h4: "\<not> has_braces ''Frame 2 looks best.''"
    using plain_text_search by (rule re_search_braces_None)
  have "analyze_frames json_loads {''a.jpg'', ''b.jpg''} (Inr [''Frame 2 looks best.''])
         [''a.jpg'', ''b.jpg'']
       = Inr \<lparr>best_frame_index = JInt 0, best_frame_path = hd [''a.jpg'', ''b.jpg''],
              reasoning = JStr ''Frame 2 looks best.'', scores = JArr [],
              raw_response = ''Frame 2 looks best.''\<rparr>"
    by (rule analyze_frames_fallback [OF h1 h2 refl h4])
  then have r: "analyze_frames json_loads {''a.jpg'', ''b.jpg''} (Inr [''Frame 2 looks best.''])
         [''a.jpg'', ''b.jpg'']
       = Inr \<lparr>best_frame_index = JInt 0, best_frame_path = ''a.jpg'',
              reasoning = JStr ''Frame 2 looks best.'', scores = JArr [],
              raw_response = ''Frame 2 looks best.''\<rparr>"
    by (simp only: list.sel)
  show ?thesis by (intro conjI h1 h2 h4 r)
qed

lemma list_index_Inr:
  "list_index xs i = Inr x \<Longrightarrow>
     - int (length xs) \<le> i \<and> i < int (length xs)
     \<and> (0 \<le> i \<longrightarrow> x = xs ! nat i)
     \<and> (i < 0 \<longrightarrow> x = xs ! nat (i + int (length xs)))"
  by (auto simp: list_index_def Let_def split: if_splits)

lemma getitem_Inr:
  "getitem xs idx = Inr x \<Longrightarrow> \<exists>i. as_index idx = Some i \<and> list_index xs i = Inr x"
  by (auto simp: getitem_def split: option.splits)

lemma try_bind_InrE:
  assumes "try_bind m f = Inr y"
  obtains x where "m = Inr x" and "f x = Inr y"
  using assms by (cases m) (simp_all add: try_bind_def)

lemma analyze_response_Inr:
  assumes "analyze_response loads response frame_paths = Inr r"
  shows "getitem frame_paths (best_frame_index r) = Inr (best_frame_path r)"
  using assms unfolding analyze_response_def
  by (elim try_bind_InrE) auto

lemma analyze_frames_Inr:
  assumes "analyze_frames loads fs response frame_paths = Inr r"
  shows "analyze_response loads response frame_paths = Inr r"
proof -
  from assms have ne: "frame_paths \<noteq> []"
    by (cases "frame_paths = []") (simp_all add: analyze_frames_def)
  show ?thesis
  proof (cases "find (\<lambda>frame_path. frame_path \<notin> fs) frame_paths")
    case (Some p)
    with assms ne show ?thesis by (simp add: analyze_frames_def)
  next
    case None
    show ?thesis
    proof (cases "analyze_response loads response frame_paths")
      case (Inl e)
      with assms ne None show ?thesis by (simp add: analyze_frames_def)
    next
      case (Inr r')
      with assms ne None show ?thesis by (simp add: analyze_frames_def)
    qed
  qed
qed

text \<open>
  Claim C2, as amended. Whenever \<open>analyze_frames\<close> returns a record for a list of \<open>n\<close>
  frame paths, its \<open>best_frame_index\<close> is an integer \<open>i\<close> with \<open>- n \<le> i < n\<close> and its
  \<open>best_frame_path\<close> is \<open>frame_paths[i]\<close> as Python indexes a list: the element at \<open>i\<close> when
  \<open>0 \<le> i\<close>, the element at \<open>i + n\<close> when \<open>i < 0\<close>.
\<close>

theorem analyze_frames_index:
  assumes "analyze_frames loads fs response frame_paths = Inr r"
  shows "\<exists>i. as_index (best_frame_index r) = Some i
           \<and> - int (length frame_paths) \<le> i \<and> i < int (length frame_paths)
           \<and> list_index frame_paths i = Inr (best_frame_path r)
           \<and> (0 \<le> i \<longrightarrow> best_frame_path r = frame_paths ! nat i)
           \<and> (i < 0 \<longrightarrow> best_frame_path r = frame_paths ! nat (i + int (length frame_paths)))"
proof -
  from assms have "analyze_response loads response frame_paths = Inr r"
    by (rule analyze_frames_Inr)
  then have "getitem frame_paths (best_frame_index r) = Inr (best_frame_path r)"
    by (rule analyze_response_Inr)
  then have "\<exists>i. as_index (best_frame_index r) = Some i
                \<and> list_index frame_paths i = Inr (best_frame_path r)"
    by (rule getitem_Inr)
  then obtain i where i: "as_index (best_frame_index r) = Some i"
    and l: "list_index frame_paths i = Inr (best_frame_path r)"
    by (elim exE conjE)
  note b = list_index_Inr [OF l]
  show ?thesis
    by (rule exI [of _ i]) (intro conjI i l b [THEN conjunct1] b [THEN conjunct2, THEN conjunct1]
        b [THEN conjunct2, THEN conjunct2, THEN conjunct1]
        b [THEN conjunct2, THEN conjunct2, THEN conjunct2])
qed

text \<open>A response that names the last frame by the index \<open>-1\<close>.\<close>

lemma last_frame_run:
  "analyze_frames json_loads {''a.jpg'', ''b.jpg''} (Inr [response_last]) [''a.jpg'', ''b.jpg'']
     = Inr \<lparr>best_frame_index = JInt (- 1), best_frame_path = ''b.jpg'',
            reasoning = JStr ''the last one'', scores = JArr [],
            raw_response = response_last\<rparr>"
  by code_simp

theorem analyze_frames_index_witness:
  "analyze_frames json_loads {''a.jpg'', ''b.jpg''} (Inr [response_last]) [''a.jpg'', ''b.jpg'']
     = Inr \<lparr>best_frame_index = JInt (- 1), best_frame_path = ''b.jpg'',
            reasoning = JStr ''the last one'', scores = JArr [],
            raw_response = response_last\<rparr>
   \<and> (\<exists>i. as_index (JInt (- 1)) = Some i
          \<and> - int (length [''a.jpg'', ''b.jpg'']) \<le> i \<and> i < int (length [''a.jpg'', ''b.jpg''])
          \<and> list_index [''a.jpg'', ''b.jpg''] i = Inr ''b.jpg'')"
proof (rule conjI [OF last_frame_run])
  from analyze_frames_index [OF last_frame_run]
  obtain i where "as_index (JInt (- 1)) = Some i"
    "- int (length [''a.jpg'', ''b.jpg'']) \<le> i" "i < int (length [''a.jpg'', ''b.jpg''])"
    "list_index [''a.jpg'', ''b.jpg''] i = Inr ''b.jpg''"
    unfolding frame_analysis.simps by (elim exE conjE)
  then show "\<exists>i. as_index (JInt (- 1)) = Some i
          \<and> - int (length [''a.jpg'', ''b.jpg'']) \<le> i \<and> i < int (length [''a.jpg'', ''b.jpg''])
          \<and> list_index [''a.jpg'', ''b.jpg''] i = Inr ''b.jpg''"
    by (intro exI [of _ i] conjI)
qed

text \<open>
  Claim C2 as stated fails for a negative index: the record is returned with
  \<open>best_frame_index = -1\<close>, which is not in the range from \<open>0\<close> to the number of frames.
\<close>

theorem analyze_frames_negative_counterexample:
  "analyze_frames json_loads {''a.jpg'', ''b.jpg''} (Inr [response_last]) [''a.jpg'', ''b.jpg'']
     = Inr \<lparr>best_frame_index = JInt (- 1), best_frame_path = ''b.jpg'',
            reasoning = JStr ''the last one'', scores = JArr [],
            raw_response = response_last\<rparr>
   \<and> as_index (JInt (- 1)) = Some (- 1)
   \<and> \<not> (0 \<le> (- 1 :: int))"
proof (intro conjI)
  show "analyze_frames json_loads {''a.jpg'', ''b.jpg''} (Inr [response_last]) [''a.jpg'', ''b.jpg'']
     = Inr \<lparr>best_frame_index = JInt (- 1), best_frame_path = ''b.jpg'',
            reasoning = JStr ''the last one'', scores = JArr [],
            raw_response = response_last\<rparr>"
    by (rule last_frame_run)
  show "as_index (JInt (- 1)) = Some (- 1)" by (simp add: as_index_def)
  show "\<not> (0 \<le> (- 1 :: int))" by simp
qed

text \<open>
  What the inspection tool prints for a file whose video stream reports the frame rate
  \<open>0/0\<close>, and the document this decodes to.
\<close>

lemma metadata_of_zero_denominator:
  assumes "subscript data ''streams'' = Inr streams"
    and "iterate streams = Inr ss"
    and "find_video_stream ss = Inr (Some video_stream)"
    and "dict_get video_stream ''r_frame_rate'' (JStr ''30/1'') = Inr (JStr fps_str)"
    and "split_on CHR ''/'' fps_str = num # den # rest"
    and "str_float num = Some n"
    and "str_float den = Some 0"
  shows "metadata_of rnd str_float str_int data = Inl ZeroDivisionError"
proof -
  have "extract_fps rnd str_float video_stream = Inl ZeroDivisionError"
    unfolding extract_fps_def assms(4)
    by (simp add: try_bind_def str_split_def assms(5) list_index_def py_float_def assms(6)
        assms(7) truediv_def)
  then show ?thesis
    unfolding metadata_of_def assms(1) by (simp add: try_bind_def assms(2) assms(3))
qed

text \<open>
  Claim C1 is not what the code does. When the frame rate string of the video stream is
  \<open>num/den\<close> and \<open>den\<close> converts to zero, \<open>_get_metadata\<close> lets the \<open>ZeroDivisionError\<close>
  of line 73 through: the handlers of lines 84 to 87 catch \<open>CalledProcessError\<close>,
  \<open>JSONDecodeError\<close>, \<open>KeyError\<close> and \<open>ValueError\<close> only, so no \<open>RuntimeError\<close> is raised.
\<close>

theorem get_metadata_zero_denominator:
  assumes "loads stdout = Some data"
    and "subscript data ''streams'' = Inr streams"
    and "iterate streams = Inr ss"
    and "find_video_stream ss = Inr (Some video_stream)"
    and "dict_get video_stream ''r_frame_rate'' (JStr ''30/1'') = Inr (JStr fps_str)"
    and "split_on CHR ''/'' fps_str = num # den # rest"
    and "str_float num = Some n"
    and "str_float den = Some 0"
  shows "get_metadata rnd loads str_float str_int (Inr stdout) = Inl ZeroDivisionError"
proof -
  have "metadata_of rnd str_float str_int data = Inl ZeroDivisionError"
    using assms(2-8) by (rule metadata_of_zero_denominator)
  then show ?thesis by (simp add: get_metadata_def assms(1))
qed

lemma zero_rate_loads: "json_loads probe_zero_rate = Some zero_rate_data"
  by code_simp

lemma zero_rate_facts:
  "subscript zero_rate_data ''streams'' = Inr (JArr [zero_rate_stream])"
  "iterate (JArr [zero_rate_stream]) = Inr [zero_rate_stream]"
  "find_video_stream [zero_rate_stream] = Inr (Some zero_rate_stream)"
  "dict_get zero_rate_stream ''r_frame_rate'' (JStr ''30/1'') = Inr (JStr ''0/0'')"
  "split_on CHR ''/'' ''0/0'' = ''0'' # ''0'' # []"
  "dec_float ''0'' = Some 0"
  by code_simp+

theorem get_metadata_zero_denominator_witness:
  "json_loads probe_zero_rate = Some zero_rate_data
   \<and> split_on CHR ''/'' ''0/0'' = [''0'', ''0'']
   \<and> dec_float ''0'' = Some 0
   \<and> get_metadata rnd_double json_loads dec_float dec_int (Inr probe_zero_rate)
       = Inl ZeroDivisionError"
proof (intro conjI)
  show "json_loads probe_zero_rate = Some zero_rate_data" by (rule zero_rate_loads)
  show "split_on CHR ''/'' ''0/0'' = [''0'', ''0'']" by (rule zero_rate_facts(5))
  show "dec_float ''0'' = Some 0" by (rule zero_rate_facts(6))
  show "get_metadata rnd_double json_loads dec_float dec_int (Inr probe_zero_rate)
       = Inl ZeroDivisionError"
    by (rule get_metadata_zero_denominator
          [where loads = json_loads and str_float = dec_float,
           OF zero_rate_loads zero_rate_facts(1-5) zero_rate_facts(6) zero_rate_facts(6)])
qed

lemma wrap_loop_invariant:
  assumes "\<forall>l\<in>set lines. getwidth l \<le> max_width \<or> (l \<in> W \<and> max_width < getwidth l)"
    and "current_line = [] \<or> getwidth (join_space current_line) \<le> max_width
         \<or> (\<exists>w. current_line = [w] \<and> w \<in> W)"
    and "set ws \<subseteq> W"
    and "wrap_loop getwidth max_width ws lines current_line = (lines', current_line')"
  shows "(\<forall>l\<in>set lines'. getwidth l \<le> max_width \<or> (l \<in> W \<and> max_width < getwidth l))
         \<and> (current_line' = [] \<or> getwidth (join_space current_line') \<le> max_width
              \<or> (\<exists>w. current_line' = [w] \<and> w \<in> W))"
  using assms
proof (induction ws arbitrary: lines current_line)
  case Nil
  then show ?case by simp
next
  case (Cons word ws)
  show ?case
  proof (cases "getwidth (join_space (current_line @ [word])) \<le> max_width")
    case True
    with Cons.prems(4) have loop:
      "wrap_loop getwidth max_width ws lines (current_line @ [word]) = (lines', current_line')"
      by (simp add: Let_def)
    have "current_line @ [word] = [] \<or> getwidth (join_space (current_line @ [word])) \<le> max_width
         \<or> (\<exists>w. current_line @ [word] = [w] \<and> w \<in> W)"
      using True by simp
    moreover have "set ws \<subseteq> W" using Cons.prems(3) by simp
    ultimately show ?thesis using Cons.IH [OF Cons.prems(1) _ _ loop] by simp
  next
    case False
    let ?lines2 = "if current_line \<noteq> [] then lines @ [join_space current_line] else lines"
    from False Cons.prems(4) have loop:
      "wrap_loop getwidth max_width ws ?lines2 [word] = (lines', current_line')"
      by (simp add: Let_def)
    have flushed: "getwidth (join_space current_line) \<le> max_width
                    \<or> (join_space current_line \<in> W \<and> max_width < getwidth (join_space current_line))"
      if "current_line \<noteq> []"
    proof (cases "getwidth (join_space current_line) \<le> max_width")
      case True
      then show ?thesis by simp
    next
      case False
      with Cons.prems(2) that obtain w where "current_line = [w]" "w \<in> W" by auto
      with False show ?thesis by simp
    qed
    have l2: "\<forall>l\<in>set ?lines2. getwidth l \<le> max_width \<or> (l \<in> W \<and> max_width < getwidth l)"
      using Cons.prems(1) flushed by auto
    have c2: "[word] = [] \<or> getwidth (join_space [word]) \<le> max_width
                \<or> (\<exists>w. [word] = [w] \<and> w \<in> W)"
      using Cons.prems(3) by simp
    have "set ws \<subseteq> W" using Cons.prems(3) by simp
    from Cons.IH [OF l2 c2 this loop] show ?thesis .
  qed
qed

lemma wrap_text_lines:
  "\<forall>line\<in>set (wrap_text getwidth text max_width).
     getwidth line \<le> max_width
     \<or> (line \<in> set (str_split_ws text) \<and> max_width < getwidth line)"
proof -
  obtain lines cur where loop:
    "wrap_loop getwidth max_width (str_split_ws text) [] [] = (lines, cur)"
    by (cases "wrap_loop getwidth max_width (str_split_ws text) [] []")
  have inv: "(\<forall>l\<in>set lines. getwidth l \<le> max_width
                 \<or> (l \<in> set (str_split_ws text) \<and> max_width < getwidth l))
         \<and> (cur = [] \<or> getwidth (join_space cur) \<le> max_width
              \<or> (\<exists>w. cur = [w] \<and> w \<in> set (str_split_ws text)))"
    by (rule wrap_loop_invariant [OF _ _ _ loop]) simp_all
  have last_ok: "getwidth (join_space cur) \<le> max_width
                    \<or> (join_space cur \<in> set (str_split_ws text) \<and> max_width < getwidth (join_space cur))"
    if "cur \<noteq> []"
  proof (cases "getwidth (join_space cur) \<le> max_width")
    case True
    then show ?thesis by simp
  next
    case False
    with inv that obtain w where "cur = [w]" "w \<in> set (str_split_ws text)" by auto
    with False show ?thesis by simp
  qed
  show ?thesis
    using inv last_ok by (auto simp add: wrap_text_def loop)
qed

text \<open>
  Claim C5. Every line that \<open>_wrap_text\<close> produces is at most \<open>max_width\<close> wide as the font
  measures it, or is a single word of the text that alone is wider; and the main lines of
  \<open>compose\<close> are wrapped to \<open>int(resolution[0] * 0.9)\<close>.
\<close>

theorem wrap_text_width:
  "(\<forall>line\<in>set (wrap_text getwidth text max_width).
      getwidth line \<le> max_width
      \<or> (line \<in> set (str_split_ws text) \<and> max_width < getwidth line))
   \<and> (\<forall>line\<in>set (compose_main_lines rnd getwidth main_text resolution).
        getwidth line \<le> compose_max_width rnd resolution
        \<or> (line \<in> set (str_split_ws main_text)
            \<and> compose_max_width rnd resolution < getwidth line))"
  unfolding compose_main_lines_def by (intro conjI wrap_text_lines)

lemma sample_wrap:
  "wrap_text mono_font sample_text 100
     = [''hello big'', ''world'', ''supercalifragilistic'', ''a b'']"
  by code_simp

lemma sample_width_720p: "compose_max_width rnd_double (1280, 720) = 1152"
  by code_simp

lemma sample_long_word: "\<not> mono_font ''supercalifragilistic'' \<le> 100"
  by (simp add: mono_font_def)

theorem wrap_text_width_witness:
  "wrap_text mono_font sample_text 100
     = [''hello big'', ''world'', ''supercalifragilistic'', ''a b'']
   \<and> compose_max_width rnd_double (1280, 720) = 1152
   \<and> \<not> mono_font ''supercalifragilistic'' \<le> 100
   \<and> ''supercalifragilistic'' \<in> set (str_split_ws sample_text)
   \<and> 100 < mono_font ''supercalifragilistic''"
proof -
  have mem: "''supercalifragilistic'' \<in> set (wrap_text mono_font sample_text 100)"
    unfolding sample_wrap by simp
  from wrap_text_width [of mono_font sample_text 100 rnd_double "[]" "(0, 0)"]
  have "\<forall>line\<in>set (wrap_text mono_font sample_text 100).
      mono_font line \<le> 100
      \<or> (line \<in> set (str_split_ws sample_text) \<and> 100 < mono_font line)"
    by (rule conjunct1)
  from bspec [OF this mem] sample_long_word
  have "''supercalifragilistic'' \<in> set (str_split_ws sample_text)
        \<and> 100 < mono_font ''supercalifragilistic''"
    by (elim disjE) simp_all
  then show ?thesis
    by (intro conjI sample_wrap sample_width_720p sample_long_word) simp_all
qed

lemma map_of_fold_update:
  "map_of (fold (\<lambda>kv. AList.update (fst kv) (snd kv)) other d) k
     = (case map_of (rev other) k of Some v \<Rightarrow> Some v | None \<Rightarrow> map_of d k)"
proof (induction other arbitrary: d)
  case Nil
  then show ?case by simp
next
  case (Cons kv other)
  show ?case
    by (simp add: Cons.IH update_conv' map_add_def split: option.splits)
qed

lemma map_of_rev_distinct: "distinct (map fst xs) \<Longrightarrow> map_of (rev xs) = map_of xs"
  by (rule map_of_inject_set [THEN iffD2]) (simp_all add: distinct_rev rev_map [symmetric])

lemma dict_copy_old: "r < length h \<Longrightarrow> snd (dict_copy h r0) ! r = h ! r"
  by (simp add: dict_copy_def nth_append)

lemma compose_style_ref: "fst (compose_style self custom_style h) = length h"
  by (simp add: compose_style_def dict_copy_def split: option.splits)

lemma compose_style_old:
  "r < length h \<Longrightarrow> snd (compose_style self custom_style h) ! r = h ! r"
  by (simp add: compose_style_def dict_copy_def dict_update_def nth_append split: option.splits)

lemma compose_style_new:
  "snd (compose_style self custom_style h) ! length h
     = (case custom_style of
          None \<Rightarrow> h ! style self
        | Some other \<Rightarrow> fold (\<lambda>kv. AList.update (fst kv) (snd kv)) other (h ! style self))"
  by (simp add: compose_style_def dict_copy_def dict_update_def nth_append split: option.splits)

text \<open>
  Claim C8. The dictionary that \<open>compose\<close> draws with is a new object: a field named in
  the override has the override's value, every other field has the value of the preset,
  and every dictionary that existed before the call, the composer's preset among them,
  is the same after it.
\<close>

theorem compose_style_shallow_merge:
  "fst (compose_style self custom_style h) = length h
   \<and> (\<forall>r < length h. snd (compose_style self custom_style h) ! r = h ! r)
   \<and> (\<forall>k. map_of (snd (compose_style self None h) ! length h) k = map_of (h ! style self) k)
   \<and> (distinct (map fst other) \<longrightarrow>
        (\<forall>k. map_of (snd (compose_style self (Some other) h) ! length h) k
               = (case map_of other k of
                    Some v \<Rightarrow> Some v
                  | None \<Rightarrow> map_of (h ! style self) k)))"
proof (intro conjI allI impI)
  show "fst (compose_style self custom_style h) = length h" by (rule compose_style_ref)
  show "snd (compose_style self custom_style h) ! r = h ! r" if "r < length h" for r
    using that by (rule compose_style_old)
  show "map_of (snd (compose_style self None h) ! length h) k = map_of (h ! style self) k" for k
    by (simp add: compose_style_new)
  show "map_of (snd (compose_style self (Some other) h) ! length h) k
               = (case map_of other k of
                    Some v \<Rightarrow> Some v
                  | None \<Rightarrow> map_of (h ! style self) k)"
    if "distinct (map fst other)" for k
  proof -
    from that have "map_of (rev other) = map_of other" by (rule map_of_rev_distinct)
    then show ?thesis by (simp add: compose_style_new map_of_fold_update)
  qed
qed

theorem compose_style_shallow_merge_witness:
  "distinct (map fst override_top)
   \<and> fst (compose_style (composer_init ''bold'') (Some override_top) STYLES_store)
       = length STYLES_store
   \<and> snd (compose_style (composer_init ''bold'') (Some override_top) STYLES_store) ! 2
       = STYLES_store ! 2
   \<and> map_of (snd (compose_style (composer_init ''bold'') (Some override_top) STYLES_store)
               ! length STYLES_store) ''position''
       = Some (PStr ''top'')
   \<and> map_of (snd (compose_style (composer_init ''bold'') (Some override_top) STYLES_store)
               ! length STYLES_store) ''font_size_main''
       = map_of (STYLES_store ! style (composer_init ''bold'')) ''font_size_main''"
proof -
  have d: "distinct (map fst override_top)" by (simp add: override_top_def)
  note th = compose_style_shallow_merge
              [of "composer_init ''bold''" "Some override_top" STYLES_store override_top]
  have two: "(2::nat) < length STYLES_store" by (simp add: STYLES_store_def)
  from th have ref: "fst (compose_style (composer_init ''bold'') (Some override_top) STYLES_store)
       = length STYLES_store"
    by (elim conjE)
  from th have "\<forall>r < length STYLES_store.
      snd (compose_style (composer_init ''bold'') (Some override_top) STYLES_store) ! r
        = STYLES_store ! r"
    by (elim conjE)
  then have old: "snd (compose_style (composer_init ''bold'') (Some override_top) STYLES_store) ! 2
       = STYLES_store ! 2"
    using two by (elim allE [of _ 2]) simp
  from th d have new: "\<forall>k. map_of (snd (compose_style (composer_init ''bold'')
                   (Some override_top) STYLES_store) ! length STYLES_store) k
               = (case map_of override_top k of
                    Some v \<Rightarrow> Some v
                  | None \<Rightarrow> map_of (STYLES_store ! style (composer_init ''bold'')) k)"
    by (elim conjE) simp
  have p: "map_of (snd (compose_style (composer_init ''bold'') (Some override_top) STYLES_store)
               ! length STYLES_store) ''position''
       = Some (PStr ''top'')"
    using new [THEN spec, of "''position''"] by (simp add: override_top_def)
  have f: "map_of (snd (compose_style (composer_init ''bold'') (Some override_top) STYLES_store)
               ! length STYLES_store) ''font_size_main''
       = map_of (STYLES_store ! style (composer_init ''bold'')) ''font_size_main''"
    using new [THEN spec, of "''font_size_main''"] by (simp add: override_top_def)
  show ?thesis by (intro conjI d ref old p f)
qed

end
